theory Spec2Isabelle
  imports Main "HOL-Library.AList"
begin

section \<open>Data model\<close>

text \<open>
  A path is a string. A \<open>ConfigArray\<close> is a JavaScript object that the enumerator
  compares by identity, mutates in place (\<open>push\<close>, \<open>unshift\<close>) and uses as a cache
  key, so the model keeps an explicit store: a reference is the address of an array, and
  the store maps each address to the elements the array holds at the moment.
\<close>

type_synonym path = string

type_synonym ref = nat

text \<open>
  \<open>ConfigDependency\<close> as \<open>createBaseConfigArray\<close> constructs it;
  \<open>definitionRules\<close> is the \<open>rules\<close> table of its \<open>definition\<close>. The type
  \<open>'x\<close> stands for data the enumerator carries and never inspects (rule
  definitions, the caller's config data, the attributes of a config element).
\<close>

record 'x ConfigDependency =
  definitionRules :: "(string \<times> 'x) list"
  depFilePath :: string
  depId :: string
  importerName :: string
  importerPath :: string

text \<open>
  One element of a config array: its \<open>name\<close>, \<open>filePath\<close> and
  \<open>plugins\<close>, which the enumerator reads or writes; every other attribute (env,
  globals, parser, rules, root, overrides, ...) is in \<open>elemAttributes\<close>, which is
  \<open>None\<close> for the element that \<open>createBaseConfigArray\<close> pushes, as it has
  none of them.
\<close>

record 'x ConfigElement =
  elemName :: string
  elemFilePath :: string
  elemPlugins :: "(string \<times> 'x ConfigDependency) list"
  elemAttributes :: "'x option"

text \<open>
  An exception thrown by a collaborator (file system, config array factory, validator,
  rule loader) with its \<open>code\<close> property, if it has one; and the errors of the
  enumerator itself.
\<close>

datatype thrown = Thrown (code: "string option")

datatype error =
    NoFilesFoundError string bool
  | AllFilesIgnoredError string
  | ConfigurationNotFoundError string
  | External thrown

datatype stats = IsFile | IsDirectory | IsOther

datatype flag = NONE | IGNORED_SILENTLY | IGNORED

datatype factory_call =
    Create string
  | LoadFile path string
  | LoadOnDirectory path "string option" "ref option"

text \<open>
  The collaborators of the enumerator, none of which is part of it: Node's \<open>path\<close>,
  \<open>os\<close> and \<open>fs\<close> modules, \<open>is-glob\<close>, \<open>glob-parent\<close>, \<open>minimatch\<close>,
  the data the config array factory finds (\<open>createData\<close>, \<open>fileData\<close>,
  \<open>directoryData\<close>), the \<open>root\<close> getter of a config array, the validator and the
  rule loader. A function that can throw returns \<open>Inl\<close> of what it throws.
\<close>

record 'x World =
  dirname :: "path \<Rightarrow> path"
  resolve :: "path \<Rightarrow> path \<Rightarrow> path"
  pathJoin :: "path \<Rightarrow> string \<Rightarrow> path"
  pathSep :: char
  homedir :: path
  statSync :: "path \<Rightarrow> thrown + stats"
  readdirSync :: "path \<Rightarrow> thrown + string list"
  isGlob :: "string \<Rightarrow> bool"
  getGlobParent :: "string \<Rightarrow> string"
  minimatch :: "string \<Rightarrow> path \<Rightarrow> bool"
  createData :: "'x option \<Rightarrow> string \<Rightarrow> thrown + 'x ConfigElement list"
  fileData :: "path \<Rightarrow> string \<Rightarrow> thrown + 'x ConfigElement list"
  directoryData :: "path \<Rightarrow> string option \<Rightarrow> thrown + 'x ConfigElement list"
  arrayRoot :: "'x ConfigElement list \<Rightarrow> bool"
  validateConfigArray :: "'x ConfigElement list \<Rightarrow> thrown option"
  loadRules :: "path \<Rightarrow> path \<Rightarrow> thrown + (string \<times> 'x) list"

text \<open>
  The internal slots that are set once by the constructor. An \<open>IgnoredPaths\<close>
  instance is its \<open>contains\<close> method: the path, and whether the second argument
  \<open>"default"\<close> was given. \<open>extRegExp\<close> is the \<open>test\<close> method of the regular
  expression built from the extensions.
\<close>

record 'x Slots =
  baseConfigData :: "'x option"
  cliConfigData :: "'x option"
  cwd :: path
  extRegExp :: "path \<Rightarrow> bool"
  globInputPaths :: bool
  ignoreFlag :: bool
  ignoredPaths :: "path \<Rightarrow> bool \<Rightarrow> bool"
  ignoredPathsWithDotfiles :: "path \<Rightarrow> bool \<Rightarrow> bool"
  rulePaths :: "string list option"
  specificConfigPath :: "string option"
  useEslintrc :: bool

text \<open>
  What changes while the enumerator runs: the store of config arrays (\<open>cells\<close>, and
  \<open>nextRef\<close>, the first address not yet in use), the two slots that \<open>clearCache\<close>
  reassigns, the two caches, and the calls made to the factory so far.
\<close>

record 'x State =
  cells :: "ref \<Rightarrow> 'x ConfigElement list"
  nextRef :: ref
  baseConfigArray :: ref
  cliConfigArray :: ref
  configCache :: "path \<rightharpoonup> ref"
  finalizeCache :: "ref \<rightharpoonup> ref"
  factoryCalls :: "factory_call list"

record FileEntry =
  entryConfig :: ref
  entryFilePath :: path
  entryFlag :: flag

record FileAndConfig =
  fcConfig :: ref
  fcFilePath :: path
  ignored :: bool

section \<open>The config array factory\<close>

definition newConfigArray :: "'x ConfigElement list \<Rightarrow> 'x State \<Rightarrow> ref \<times> 'x State" where
  "newConfigArray elements s =
     (nextRef s, s\<lparr>cells := (cells s)(nextRef s := elements), nextRef := Suc (nextRef s)\<rparr>)"

text \<open>
  Modelled from the spec: \<open>ConfigArrayFactory.create\<close>, which is not among the
  sources. It materialises inline data as a new config array, which may be empty.
\<close>

definition create :: "'x World \<Rightarrow> 'x option \<Rightarrow> string \<Rightarrow> 'x State \<Rightarrow> (error + ref) \<times> 'x State" where
  "create w data nm s =
     (let s1 = s\<lparr>factoryCalls := factoryCalls s @ [Create nm]\<rparr>
      in case createData w data nm of
           Inl e \<Rightarrow> (Inl (External e), s1)
         | Inr elements \<Rightarrow> (let (r, s2) = newConfigArray elements s1 in (Inr r, s2)))"

text \<open>
  Modelled from the spec: \<open>ConfigArrayFactory.loadFile\<close>, which is not among the
  sources. It loads one explicit config file as a new config array.
\<close>

definition loadFile :: "'x World \<Rightarrow> path \<Rightarrow> string \<Rightarrow> 'x State \<Rightarrow> (error + ref) \<times> 'x State" where
  "loadFile w p nm s =
     (let s1 = s\<lparr>factoryCalls := factoryCalls s @ [LoadFile p nm]\<rparr>
      in case fileData w p nm of
           Inl e \<Rightarrow> (Inl (External e), s1)
         | Inr elements \<Rightarrow> (let (r, s2) = newConfigArray elements s1 in (Inr r, s2)))"

text \<open>
  Modelled from the spec: \<open>ConfigArrayFactory.loadOnDirectory\<close>, which is not among
  the sources. It scans a directory for config files and gives a new array of what it
  found, empty if there is none; with a \<open>parent\<close> the elements are layered on the
  parent's, and if the directory has no config file the result is the parent array
  itself (reference-equal).
\<close>

definition loadOnDirectory ::
  "'x World \<Rightarrow> path \<Rightarrow> string option \<Rightarrow> ref option \<Rightarrow> 'x State \<Rightarrow> (error + ref) \<times> 'x State" where
  "loadOnDirectory w dir nm parent s =
     (let s1 = s\<lparr>factoryCalls := factoryCalls s @ [LoadOnDirectory dir nm parent]\<rparr>
      in case directoryData w dir nm of
           Inl e \<Rightarrow> (Inl (External e), s1)
         | Inr elements \<Rightarrow>
             (case parent of
                None \<Rightarrow> (let (r, s2) = newConfigArray elements s1 in (Inr r, s2))
              | Some p \<Rightarrow>
                  if elements = [] then (Inr p, s1)
                  else (let (r, s2) = newConfigArray (cells s1 p @ elements) s1 in (Inr r, s2))))"

section \<open>The ancestor resolver\<close>

text \<open>
  \<open>_loadConfigInAncestorsRecursive\<close>, with the test of its ``consider this is
  root'' branch as \<open>consideredRoot\<close>. The walk ends when \<open>dirname\<close> reaches a
  fixed point, which is a property of the platform's \<open>path.dirname\<close>; the model makes
  no assumption on \<open>dirname\<close>, so the function is partial and \<open>None\<close> is the walk
  that never returns. A result \<open>Some (res, s)\<close> is the value returned (\<open>Inr\<close>) or the
  exception thrown (\<open>Inl\<close>), and the state left behind in either case.
\<close>

definition consideredRoot :: "'x World \<Rightarrow> 'x Slots \<Rightarrow> path \<Rightarrow> path \<Rightarrow> bool" where
  "consideredRoot w slots directoryPath filePath =
     (let homePath = homedir w
      in directoryPath = [] \<or>
         directoryPath = filePath \<or>
         (directoryPath = homePath \<and> cwd slots \<noteq> homePath))"

partial_function (option) loadConfigInAncestorsRecursive ::
  "'x World \<Rightarrow> 'x Slots \<Rightarrow> 'x State \<Rightarrow> path \<Rightarrow> ((error + ref) \<times> 'x State) option" where
  "loadConfigInAncestorsRecursive w slots s filePath =
     (if \<not> useEslintrc slots then Some (Inr (baseConfigArray s), s)
      else
        let directoryPath = dirname w filePath in
        case configCache s directoryPath of
          Some configArray \<Rightarrow> Some (Inr configArray, s)
        | None \<Rightarrow>
            if consideredRoot w slots directoryPath filePath
            then Some (Inr (baseConfigArray s),
                       s\<lparr>configCache := (configCache s)(directoryPath \<mapsto> baseConfigArray s)\<rparr>)
            else
              case loadOnDirectory w directoryPath None None s of
                (Inl e, s1) \<Rightarrow>
                  if e = External (Thrown (Some ''EACCES''))
                  then Some (Inr (baseConfigArray s1),
                             s1\<lparr>configCache := (configCache s1)(directoryPath \<mapsto> baseConfigArray s1)\<rparr>)
                  else Some (Inl e, s1)
              | (Inr configArray, s1) \<Rightarrow>
                  if length (cells s1 configArray) > 0 \<and> arrayRoot w (cells s1 configArray)
                  then Some (Inr configArray,
                             s1\<lparr>configCache := (configCache s1)(directoryPath \<mapsto> configArray)\<rparr>)
                  else if length (cells s1 configArray) > 0
                  then
                    Option.bind (loadConfigInAncestorsRecursive w slots s1 directoryPath)
                      (\<lambda>(res, s2). case res of
                          Inl e \<Rightarrow> Some (Inl e, s2)
                        | Inr ancestors \<Rightarrow>
                            Some (Inr configArray,
                                  s2\<lparr>cells := (cells s2)
                                         (configArray := cells s2 ancestors @ cells s2 configArray),
                                     configCache := (configCache s2)(directoryPath \<mapsto> configArray)\<rparr>))
                  else
                    Option.bind (loadConfigInAncestorsRecursive w slots s1 directoryPath)
                      (\<lambda>(res, s2). case res of
                          Inl e \<Rightarrow> Some (Inl e, s2)
                        | Inr ancestors \<Rightarrow>
                            Some (Inr ancestors,
                                  s2\<lparr>configCache := (configCache s2)(directoryPath \<mapsto> ancestors)\<rparr>)))"

declare loadConfigInAncestorsRecursive.simps [code]

definition loadConfigInAncestors ::
  "'x World \<Rightarrow> 'x Slots \<Rightarrow> 'x State \<Rightarrow> path \<Rightarrow> ((error + ref) \<times> 'x State) option" where
  "loadConfigInAncestors w slots s filePath = loadConfigInAncestorsRecursive w slots s filePath"

section \<open>The finalizer\<close>

text \<open>
  \<open>_finalizeConfigArray\<close>. Two steps of its body have a name here, after the
  comments that head them in the source: ``load the personal config if there are no
  regular config files'' and ``apply CLI options''. \<open>!c.filePath\<close> holds of the
  empty string; the finalize cache is a \<open>WeakMap\<close> keyed by the identity of the raw
  array.
\<close>

definition loadPersonalConfig ::
  "'x World \<Rightarrow> 'x Slots \<Rightarrow> 'x State \<Rightarrow> ref \<Rightarrow> (error + ref) \<times> 'x State" where
  "loadPersonalConfig w slots s configArray =
     (if useEslintrc slots \<and>
         list_all (\<lambda>c. elemFilePath c = []) (cells s configArray) \<and>
         list_all (\<lambda>c. elemFilePath c = []) (cells s (cliConfigArray s))
      then loadOnDirectory w (homedir w) (Some ''PersonalConfig'') (Some configArray) s
      else (Inr configArray, s))"

definition applyCLIOptions :: "'x State \<Rightarrow> ref \<Rightarrow> ref \<times> 'x State" where
  "applyCLIOptions s finalConfigArray =
     (if length (cells s (cliConfigArray s)) > 0
      then newConfigArray (cells s finalConfigArray @ cells s (cliConfigArray s)) s
      else (finalConfigArray, s))"

definition finalizeConfigArray ::
  "'x World \<Rightarrow> 'x Slots \<Rightarrow> 'x State \<Rightarrow> ref \<Rightarrow> path \<Rightarrow> (error + ref) \<times> 'x State" where
  "finalizeConfigArray w slots s configArray directoryPath =
     (case
        (case finalizeCache s configArray of
           Some finalConfigArray \<Rightarrow> (Inr finalConfigArray, s)
         | None \<Rightarrow>
             (case loadPersonalConfig w slots s configArray of
                (Inl e, s1) \<Rightarrow> (Inl e, s1)
              | (Inr loaded, s1) \<Rightarrow>
                  (case applyCLIOptions s1 loaded of
                     (finalConfigArray, s2) \<Rightarrow>
                       (case validateConfigArray w (cells s2 finalConfigArray) of
                          Some e \<Rightarrow> (Inl (External e), s2)
                        | None \<Rightarrow>
                            (Inr finalConfigArray,
                             s2\<lparr>finalizeCache :=
                                   (finalizeCache s2)(configArray \<mapsto> finalConfigArray)\<rparr>)))))
      of
        (Inl e, s3) \<Rightarrow> (Inl e, s3)
      | (Inr finalConfigArray, s3) \<Rightarrow>
          if useEslintrc slots \<and> length (cells s3 finalConfigArray) = 0
          then (Inl (ConfigurationNotFoundError directoryPath), s3)
          else (Inr finalConfigArray, s3))"

section \<open>The enumerator\<close>

text \<open>\<open>getConfigArrayForFile\<close>; the default argument is \<open>"a.js"\<close>.\<close>

definition getConfigArrayForFile ::
  "'x World \<Rightarrow> 'x Slots \<Rightarrow> 'x State \<Rightarrow> path \<Rightarrow> ((error + ref) \<times> 'x State) option" where
  "getConfigArrayForFile w slots s filePath =
     (let absolutePath = resolve w (cwd slots) filePath
      in Option.bind (loadConfigInAncestors w slots s absolutePath)
           (\<lambda>(res, s1). case res of
               Inl e \<Rightarrow> Some (Inl e, s1)
             | Inr configArray \<Rightarrow>
                 Some (finalizeConfigArray w slots s1 configArray (dirname w absolutePath))))"

definition getConfigArrayForFileDefault ::
  "'x World \<Rightarrow> 'x Slots \<Rightarrow> 'x State \<Rightarrow> ((error + ref) \<times> 'x State) option" where
  "getConfigArrayForFileDefault w slots s = getConfigArrayForFile w slots s ''a.js''"

text \<open>
  \<open>isGlobPattern\<close>, \<open>statSafeSync\<close>, \<open>readdirSafeSync\<close>. The backslash is the
  character \<open>0x5C\<close>.
\<close>

definition isGlobPattern :: "'x World \<Rightarrow> string \<Rightarrow> bool" where
  "isGlobPattern w pattern =
     isGlob w (if pathSep w = CHR 0x5C
               then map (\<lambda>c. if c = CHR 0x5C then CHR ''/'' else c) pattern
               else pattern)"

definition statSafeSync :: "'x World \<Rightarrow> path \<Rightarrow> error + stats option" where
  "statSafeSync w filePath =
     (case statSync w filePath of
        Inr st \<Rightarrow> Inr (Some st)
      | Inl e \<Rightarrow> if code e \<noteq> Some ''ENOENT'' then Inl (External e) else Inr None)"

definition readdirSafeSync :: "'x World \<Rightarrow> path \<Rightarrow> error + string list" where
  "readdirSafeSync w directoryPath =
     (case readdirSync w directoryPath of
        Inr filenames \<Rightarrow> Inr filenames
      | Inl e \<Rightarrow> if code e \<noteq> Some ''ENOENT'' then Inl (External e) else Inr [])"

text \<open>
  \<open>dotfilesPattern.test\<close>, for the regular expression
  \<^verbatim>\<open>/(?:(?:^\.)|(?:[/\\]\.))[^/\\.].*/u\<close>: a dot at the start of the string or after
  a separator, followed by a character that is neither a separator nor a dot.
\<close>

fun dotThenName :: "string \<Rightarrow> bool" where
  "dotThenName (d # c # cs) = (d = CHR ''.'' \<and> c \<noteq> CHR ''/'' \<and> c \<noteq> CHR 0x5C \<and> c \<noteq> CHR ''.'')"
| "dotThenName cs = False"

fun separatorDotThenName :: "string \<Rightarrow> bool" where
  "separatorDotThenName [] = False"
| "separatorDotThenName (c # cs) =
     (((c = CHR ''/'' \<or> c = CHR 0x5C) \<and> dotThenName cs) \<or> separatorDotThenName cs)"

definition dotfilesPattern :: "string \<Rightarrow> bool" where
  "dotfilesPattern pattern = (dotThenName pattern \<or> separatorDotThenName pattern)"

text \<open>
  The test \<^verbatim>\<open>/\*\*|\/|\\/u\<close> of \<open>_iterateFilesWithGlob\<close>: two stars in a row, a
  slash or a backslash somewhere in the glob part.
\<close>

fun recursiveGlobPart :: "string \<Rightarrow> bool" where
  "recursiveGlobPart [] = False"
| "recursiveGlobPart (c # cs) =
     (c = CHR ''/'' \<or> c = CHR 0x5C \<or>
      (c = CHR ''*'' \<and> (case cs of [] \<Rightarrow> False | c' # cs' \<Rightarrow> c' = CHR ''*'')) \<or>
      recursiveGlobPart cs)"

text \<open>\<open>_isIgnoredFile\<close>, with its two options, each \<open>false\<close> by default.\<close>

definition isIgnoredFile :: "'x Slots \<Rightarrow> path \<Rightarrow> bool \<Rightarrow> bool \<Rightarrow> bool" where
  "isIgnoredFile slots filePath dotfiles direct =
     (let adoptedIgnoredPaths =
            (if dotfiles then ignoredPathsWithDotfiles slots else ignoredPaths slots)
      in if ignoreFlag slots
         then adoptedIgnoredPaths filePath False
         else (\<not> direct \<and> adoptedIgnoredPaths filePath True))"

text \<open>\<open>_loadConfigOnDirectory\<close>.\<close>

definition loadConfigOnDirectory ::
  "'x World \<Rightarrow> 'x Slots \<Rightarrow> path \<Rightarrow> ref \<Rightarrow> 'x State \<Rightarrow> (error + ref) \<times> 'x State" where
  "loadConfigOnDirectory w slots directoryPath parentConfigArray s =
     (if \<not> useEslintrc slots then (Inr parentConfigArray, s)
      else loadOnDirectory w directoryPath None (Some parentConfigArray) s)"

text \<open>
  The options of a directory walk; the selector is the glob pattern its \<open>Minimatch\<close>
  was made of, or \<open>None\<close> for \<open>null\<close>.
\<close>

record IterateOptions =
  optDotfiles :: bool
  optRecursive :: bool
  optSelector :: "string option"

text \<open>
  \<open>_iterateFilesRecursive\<close> is a generator. The model runs it to its end and gives
  the entries it yields in order, the exception that ended it if one did, and the state
  it leaves. A directory tree can be followed without end (a link to an ancestor), so
  the walk takes fuel, one unit for each level it descends, and is \<open>None\<close> when the
  fuel runs out. \<open>iterateFilesInDirectory\<close> is its loop over the names read from one
  directory.
\<close>

fun iterateFilesRecursive ::
    "nat \<Rightarrow> 'x World \<Rightarrow> 'x Slots \<Rightarrow> path \<Rightarrow> ref \<Rightarrow> IterateOptions \<Rightarrow> 'x State
       \<Rightarrow> (FileEntry list \<times> error option \<times> 'x State) option"
  and iterateFilesInDirectory ::
    "nat \<Rightarrow> 'x World \<Rightarrow> 'x Slots \<Rightarrow> path \<Rightarrow> ref \<Rightarrow> IterateOptions \<Rightarrow> string list \<Rightarrow> 'x State
       \<Rightarrow> (FileEntry list \<times> error option \<times> 'x State) option" where
  "iterateFilesRecursive 0 w slots directoryPath parentConfig options s = None"
| "iterateFilesRecursive (Suc fuel) w slots directoryPath parentConfig options s =
     (if isIgnoredFile slots directoryPath (optDotfiles options) False then Some ([], None, s)
      else
        case loadConfigOnDirectory w slots directoryPath parentConfig s of
          (Inl e, s1) \<Rightarrow> Some ([], Some e, s1)
        | (Inr cfg, s1) \<Rightarrow>
            (case readdirSafeSync w directoryPath of
               Inl e \<Rightarrow> Some ([], Some e, s1)
             | Inr filenames \<Rightarrow>
                 iterateFilesInDirectory fuel w slots directoryPath cfg options filenames s1))"
| "iterateFilesInDirectory fuel w slots directoryPath cfg options [] s = Some ([], None, s)"
| "iterateFilesInDirectory fuel w slots directoryPath cfg options (filename # filenames) s =
     (let filePath = pathJoin w directoryPath filename
      in case statSafeSync w filePath of
           Inl e \<Rightarrow> Some ([], Some e, s)
         | Inr st \<Rightarrow>
             if st = Some IsFile then
               (let isIgnored = isIgnoredFile slots filePath (optDotfiles options) False;
                    flg = (if isIgnored then IGNORED_SILENTLY else NONE);
                    matched = (case optSelector options of
                                 Some pattern \<Rightarrow> minimatch w pattern filePath
                               | None \<Rightarrow> extRegExp slots filePath)
                in if matched
                   then
                     (case iterateFilesInDirectory fuel w slots directoryPath cfg options filenames s of
                        None \<Rightarrow> None
                      | Some (entries, thrownError, s1) \<Rightarrow>
                          Some (\<lparr>entryConfig = cfg, entryFilePath = filePath, entryFlag = flg\<rparr>
                                  # entries, thrownError, s1))
                   else iterateFilesInDirectory fuel w slots directoryPath cfg options filenames s)
             else if optRecursive options \<and> st = Some IsDirectory then
               (case iterateFilesRecursive fuel w slots filePath cfg options s of
                  None \<Rightarrow> None
                | Some (entries1, Some e, s1) \<Rightarrow> Some (entries1, Some e, s1)
                | Some (entries1, None, s1) \<Rightarrow>
                    (case iterateFilesInDirectory fuel w slots directoryPath cfg options filenames s1 of
                       None \<Rightarrow> None
                     | Some (entries2, thrownError, s2) \<Rightarrow>
                         Some (entries1 @ entries2, thrownError, s2)))
             else iterateFilesInDirectory fuel w slots directoryPath cfg options filenames s)"

text \<open>\<open>_iterateFilesWithFile\<close>, \<open>_iterateFilesWithDirectory\<close>, \<open>_iterateFilesWithGlob\<close>.\<close>

definition iterateFilesWithFile ::
  "'x World \<Rightarrow> 'x Slots \<Rightarrow> path \<Rightarrow> 'x State
     \<Rightarrow> (FileEntry list \<times> error option \<times> 'x State) option" where
  "iterateFilesWithFile w slots filePath s =
     Option.bind (loadConfigInAncestors w slots s filePath)
       (\<lambda>(res, s1). case res of
           Inl e \<Rightarrow> Some ([], Some e, s1)
         | Inr cfg \<Rightarrow>
             (let isIgnored = isIgnoredFile slots filePath False True;
                  flg = (if isIgnored then IGNORED else NONE)
              in Some ([\<lparr>entryConfig = cfg, entryFilePath = filePath, entryFlag = flg\<rparr>],
                       None, s1)))"

definition iterateFilesWithDirectory ::
  "nat \<Rightarrow> 'x World \<Rightarrow> 'x Slots \<Rightarrow> path \<Rightarrow> bool \<Rightarrow> 'x State
     \<Rightarrow> (FileEntry list \<times> error option \<times> 'x State) option" where
  "iterateFilesWithDirectory fuel w slots directoryPath dotfiles s =
     Option.bind (loadConfigInAncestors w slots s directoryPath)
       (\<lambda>(res, s1). case res of
           Inl e \<Rightarrow> Some ([], Some e, s1)
         | Inr cfg \<Rightarrow>
             iterateFilesRecursive fuel w slots directoryPath cfg
               \<lparr>optDotfiles = dotfiles, optRecursive = True, optSelector = None\<rparr> s1)"

definition iterateFilesWithGlob ::
  "nat \<Rightarrow> 'x World \<Rightarrow> 'x Slots \<Rightarrow> string \<Rightarrow> bool \<Rightarrow> 'x State
     \<Rightarrow> (FileEntry list \<times> error option \<times> 'x State) option" where
  "iterateFilesWithGlob fuel w slots pattern dotfiles s =
     (let directoryPath = getGlobParent w pattern;
          globPart = drop (length directoryPath + 1) pattern
      in Option.bind (loadConfigInAncestors w slots s directoryPath)
           (\<lambda>(res, s1). case res of
               Inl e \<Rightarrow> Some ([], Some e, s1)
             | Inr cfg \<Rightarrow>
                 iterateFilesRecursive fuel w slots directoryPath cfg
                   \<lparr>optDotfiles = dotfiles, optRecursive = recursiveGlobPart globPart,
                    optSelector = Some pattern\<rparr> s1))"

text \<open>\<open>_iterateFiles\<close>: the entries of one pattern.\<close>

definition iterateFilesOfPattern ::
  "nat \<Rightarrow> 'x World \<Rightarrow> 'x Slots \<Rightarrow> string \<Rightarrow> 'x State
     \<Rightarrow> (FileEntry list \<times> error option \<times> 'x State) option" where
  "iterateFilesOfPattern fuel w slots pattern s =
     (let absolutePath = resolve w (cwd slots) pattern
      in if globInputPaths slots \<and> isGlobPattern w pattern
         then iterateFilesWithGlob fuel w slots absolutePath (dotfilesPattern pattern) s
         else
           case statSafeSync w absolutePath of
             Inl e \<Rightarrow> Some ([], Some e, s)
           | Inr st \<Rightarrow>
               if st = Some IsDirectory
               then iterateFilesWithDirectory fuel w slots absolutePath (dotfilesPattern pattern) s
               else if st = Some IsFile
               then iterateFilesWithFile w slots absolutePath s
               else Some ([], None, s))"

text \<open>
  The loop of \<open>iterateFiles\<close> over the entries of one pattern, with its two flags and
  the set of paths already yielded. It gives what it yields, the exception thrown by
  \<open>_finalizeConfigArray\<close> if one was, and the flags, the set and the state at its end.
  In the source the loop takes the entries from the walk one at a time, so that walk and
  finalizer alternate; here the walk of a pattern has come to its end before the first
  entry is finalized. The walk does not read the finalize cache, and the finalizer
  changes neither an array that exists nor the per-directory cache, so this decides
  which address a new array receives and the order of the calls in the log, and
  nothing else about a run in which the walk returns.
\<close>

fun iterateFilesEntries ::
  "'x World \<Rightarrow> 'x Slots \<Rightarrow> FileEntry list \<Rightarrow> bool \<Rightarrow> bool \<Rightarrow> path set \<Rightarrow> 'x State
     \<Rightarrow> FileAndConfig list \<times> error option \<times> bool \<times> bool \<times> path set \<times> 'x State" where
  "iterateFilesEntries w slots [] foundRegardlessOfIgnored found seen s =
     ([], None, foundRegardlessOfIgnored, found, seen, s)"
| "iterateFilesEntries w slots (entry # entries) foundRegardlessOfIgnored found seen s =
     (if entryFlag entry = IGNORED_SILENTLY
      then iterateFilesEntries w slots entries True found seen s
      else if entryFilePath entry \<notin> seen
      then
        (case finalizeConfigArray w slots s (entryConfig entry) (dirname w (entryFilePath entry)) of
           (Inl e, s1) \<Rightarrow> ([], Some e, True, True, insert (entryFilePath entry) seen, s1)
         | (Inr cfg, s1) \<Rightarrow>
             (case iterateFilesEntries w slots entries True True
                     (insert (entryFilePath entry) seen) s1 of
                (yielded, thrownError, foundRegardlessOfIgnored', found', seen', s2) \<Rightarrow>
                  (\<lparr>fcConfig = cfg, fcFilePath = entryFilePath entry,
                    ignored = (entryFlag entry = IGNORED)\<rparr> # yielded,
                   thrownError, foundRegardlessOfIgnored', found', seen', s2)))
      else iterateFilesEntries w slots entries True True seen s)"

text \<open>
  The loop of \<open>iterateFiles\<close> over the patterns. The result is what the generator
  yields, the exception that ends it if one does, and the state.
\<close>

fun iterateFilesPatterns ::
  "nat \<Rightarrow> 'x World \<Rightarrow> 'x Slots \<Rightarrow> string list \<Rightarrow> path set \<Rightarrow> 'x State
     \<Rightarrow> (FileAndConfig list \<times> error option \<times> 'x State) option" where
  "iterateFilesPatterns fuel w slots [] seen s = Some ([], None, s)"
| "iterateFilesPatterns fuel w slots (pattern # patterns) seen s =
     (if pattern = [] then iterateFilesPatterns fuel w slots patterns seen s
      else
        case iterateFilesOfPattern fuel w slots pattern s of
          None \<Rightarrow> None
        | Some (entries, thrownByWalk, s1) \<Rightarrow>
            (case iterateFilesEntries w slots entries False False seen s1 of
               (yielded, thrownError, foundRegardlessOfIgnored, found, seen', s2) \<Rightarrow>
                 (case thrownError of
                    Some e \<Rightarrow> Some (yielded, Some e, s2)
                  | None \<Rightarrow>
                      (case thrownByWalk of
                         Some e \<Rightarrow> Some (yielded, Some e, s2)
                       | None \<Rightarrow>
                           if \<not> foundRegardlessOfIgnored
                           then Some (yielded,
                                      Some (NoFilesFoundError pattern
                                              (\<not> globInputPaths slots \<and> isGlob w pattern)),
                                      s2)
                           else if \<not> found
                           then Some (yielded, Some (AllFilesIgnoredError pattern), s2)
                           else
                             (case iterateFilesPatterns fuel w slots patterns seen' s2 of
                                None \<Rightarrow> None
                              | Some (yielded', thrownError', s3) \<Rightarrow>
                                  Some (yielded @ yielded', thrownError', s3))))))"

text \<open>\<open>iterateFiles\<close>: one pattern (\<open>Inl\<close>) or an array of patterns (\<open>Inr\<close>).\<close>

definition iterateFiles ::
  "nat \<Rightarrow> 'x World \<Rightarrow> 'x Slots \<Rightarrow> string + string list \<Rightarrow> 'x State
     \<Rightarrow> (FileAndConfig list \<times> error option \<times> 'x State) option" where
  "iterateFiles fuel w slots patternOrPatterns s =
     iterateFilesPatterns fuel w slots
       (case patternOrPatterns of Inl pattern \<Rightarrow> [pattern] | Inr patterns \<Rightarrow> patterns) {} s"

section \<open>Objects and their keys\<close>

text \<open>
  A JavaScript object with string keys is the list of its properties in the order they
  were created. \<open>Object.keys\<close> does not list them in that order: the keys that are
  array indices (the canonical decimal numeral of an integer below \<open>2^32 - 1\<close>) come
  first, in ascending numeric order, and the others follow in creation order.
  \<open>Object.assign\<close> sets the properties of the source on the target in the order of
  \<open>Object.keys\<close>; setting a property that exists keeps its place.
\<close>

definition isDigit :: "char \<Rightarrow> bool" where
  "isDigit c = (48 \<le> (of_char c :: nat) \<and> (of_char c :: nat) \<le> 57)"

definition decimalValue :: "string \<Rightarrow> nat" where
  "decimalValue cs = foldl (\<lambda>n c. 10 * n + ((of_char c :: nat) - 48)) 0 cs"

definition arrayIndex :: "string \<Rightarrow> nat option" where
  "arrayIndex k =
     (if k \<noteq> [] \<and> list_all isDigit k \<and> (length k = 1 \<or> hd k \<noteq> CHR ''0'') \<and>
         decimalValue k < 4294967295
      then Some (decimalValue k) else None)"

definition Object_keys :: "(string \<times> 'v) list \<Rightarrow> string list" where
  "Object_keys obj =
     sort_key decimalValue (filter (\<lambda>k. arrayIndex k \<noteq> None) (map fst obj)) @
     filter (\<lambda>k. arrayIndex k = None) (map fst obj)"

definition Object_assign :: "(string \<times> 'v) list \<Rightarrow> (string \<times> 'v) list \<Rightarrow> (string \<times> 'v) list" where
  "Object_assign target source =
     foldl (\<lambda>obj k. case map_of source k of Some v \<Rightarrow> AList.update k v obj | None \<Rightarrow> obj)
       target (Object_keys source)"

section \<open>Construction and \<open>clearCache\<close>\<close>

text \<open>The \<open>reduce\<close> of \<open>createBaseConfigArray\<close> over the rule directories.\<close>

fun reduceRulePaths ::
  "'x World \<Rightarrow> path \<Rightarrow> string list \<Rightarrow> (string \<times> 'x) list \<Rightarrow> thrown + (string \<times> 'x) list" where
  "reduceRulePaths w dir [] rules = Inr rules"
| "reduceRulePaths w dir (rulesPath # rest) rules =
     (case loadRules w rulesPath dir of
        Inl e \<Rightarrow> Inl e
      | Inr loaded \<Rightarrow> reduceRulePaths w dir rest (Object_assign rules loaded))"

definition createBaseConfigArray ::
  "'x World \<Rightarrow> 'x Slots \<Rightarrow> 'x State \<Rightarrow> (error + ref) \<times> 'x State" where
  "createBaseConfigArray w slots s =
     (case create w (baseConfigData slots) ''BaseConfig'' s of
        (Inl e, s1) \<Rightarrow> (Inl e, s1)
      | (Inr baseArray, s1) \<Rightarrow>
          (case rulePaths slots of
             None \<Rightarrow> (Inr baseArray, s1)
           | Some paths \<Rightarrow>
               if length paths > 0
               then
                 (case reduceRulePaths w (cwd slots) paths [] of
                    Inl e \<Rightarrow> (Inl (External e), s1)
                  | Inr loaded \<Rightarrow>
                      (Inr baseArray,
                       s1\<lparr>cells := (cells s1)
                            (baseArray := cells s1 baseArray @
                               [\<lparr>elemName = ''--rulesdir'', elemFilePath = [],
                                 elemPlugins =
                                   [([], \<lparr>definitionRules = loaded, depFilePath = [],
                                           depId = [], importerName = ''--rulesdir'',
                                           importerPath = []\<rparr>)],
                                 elemAttributes = None\<rparr>])\<rparr>))
               else (Inr baseArray, s1)))"

definition createCLIConfigArray ::
  "'x World \<Rightarrow> 'x Slots \<Rightarrow> 'x State \<Rightarrow> (error + ref) \<times> 'x State" where
  "createCLIConfigArray w slots s =
     (case create w (cliConfigData slots) ''CLIOptions'' s of
        (Inl e, s1) \<Rightarrow> (Inl e, s1)
      | (Inr cliArray, s1) \<Rightarrow>
          (case specificConfigPath slots of
             None \<Rightarrow> (Inr cliArray, s1)
           | Some configPath \<Rightarrow>
               if configPath \<noteq> []
               then
                 (case loadFile w configPath ''--config'' s1 of
                    (Inl e, s2) \<Rightarrow> (Inl e, s2)
                  | (Inr loaded, s2) \<Rightarrow>
                      (Inr cliArray,
                       s2\<lparr>cells := (cells s2)(cliArray := cells s2 loaded @ cells s2 cliArray)\<rparr>))
               else (Inr cliArray, s1)))"

text \<open>
  The constructor, from a store with no array in it; the slots are the options after
  their defaults. It is \<open>Inl\<close> when building an array throws.
\<close>

definition emptyState :: "'x State" where
  "emptyState =
     \<lparr>cells = (\<lambda>r. []), nextRef = 0, baseConfigArray = 0, cliConfigArray = 0,
      configCache = Map.empty, finalizeCache = Map.empty, factoryCalls = []\<rparr>"

definition newFileEnumerator :: "'x World \<Rightarrow> 'x Slots \<Rightarrow> error + 'x State" where
  "newFileEnumerator w slots =
     (case createBaseConfigArray w slots emptyState of
        (Inl e, s1) \<Rightarrow> Inl e
      | (Inr baseArray, s1) \<Rightarrow>
          (case createCLIConfigArray w slots s1 of
             (Inl e, s2) \<Rightarrow> Inl e
           | (Inr cliArray, s2) \<Rightarrow>
               Inr (s2\<lparr>baseConfigArray := baseArray, cliConfigArray := cliArray\<rparr>)))"

text \<open>
  \<open>clearCache\<close>: the exception thrown, if one is, and the state. The finalize cache
  is a \<open>WeakMap\<close>, which has no \<open>clear\<close>, and is not touched.
\<close>

definition clearCache :: "'x World \<Rightarrow> 'x Slots \<Rightarrow> 'x State \<Rightarrow> error option \<times> 'x State" where
  "clearCache w slots s =
     (case createBaseConfigArray w slots s of
        (Inl e, s1) \<Rightarrow> (Some e, s1)
      | (Inr baseArray, s1) \<Rightarrow>
          (case createCLIConfigArray w slots (s1\<lparr>baseConfigArray := baseArray\<rparr>) of
             (Inl e, s2) \<Rightarrow> (Some e, s2)
           | (Inr cliArray, s2) \<Rightarrow>
               (None, s2\<lparr>cliConfigArray := cliArray, configCache := Map.empty\<rparr>)))"

section \<open>\<open>ExtractedConfig\<close>\<close>

text \<open>
  The class \<open>ExtractedConfig\<close>, and the object that
  \<open>toCompatibleObjectAsConfigFileContent\<close> returns: the same fields without
  \<open>processor\<close>, \<open>parser\<close> a string or \<open>null\<close> (\<open>None\<close>), \<open>plugins\<close> an array of
  strings.
\<close>

record 'x ExtractedConfig =
  env :: "(string \<times> bool) list"
  globals :: "(string \<times> 'x) list"
  parser :: "'x ConfigDependency option"
  parserOptions :: 'x
  plugins :: "(string \<times> 'x ConfigDependency) list"
  processor :: "string option"
  rules :: "(string \<times> 'x list) list"
  settings :: 'x

record 'x ConfigFileContent =
  contentEnv :: "(string \<times> bool) list"
  contentGlobals :: "(string \<times> 'x) list"
  contentParser :: "string option"
  contentParserOptions :: 'x
  contentPlugins :: "string list"
  contentRules :: "(string \<times> 'x list) list"
  contentSettings :: 'x

definition toCompatibleObjectAsConfigFileContent :: "'x ExtractedConfig \<Rightarrow> 'x ConfigFileContent" where
  "toCompatibleObjectAsConfigFileContent this =
     \<lparr>contentEnv = env this,
      contentGlobals = globals this,
      contentParser = (case parser this of None \<Rightarrow> None | Some dep \<Rightarrow> Some (depFilePath dep)),
      contentParserOptions = parserOptions this,
      contentPlugins = rev (Object_keys (plugins this)),
      contentRules = rules this,
      contentSettings = settings this\<rparr>"

section \<open>The ancestor walk as a relation\<close>

text \<open>
  The same walk as a big-step relation, one rule for each way through
  \<open>_loadConfigInAncestorsRecursive\<close>: \<open>ancestorsWalk w slots s p (res, s')\<close> holds
  exactly when the function returns \<open>Some (res, s')\<close> (lemmas \<open>walk_sound\<close> and
  \<open>walk_complete\<close>). Properties of every walk are proved by induction on it.
\<close>

inductive ancestorsWalk ::
  "'x World \<Rightarrow> 'x Slots \<Rightarrow> 'x State \<Rightarrow> path \<Rightarrow> (error + ref) \<times> 'x State \<Rightarrow> bool"
  for w :: "'x World" and slots :: "'x Slots" where
  disabled:
    "\<not> useEslintrc slots \<Longrightarrow> ancestorsWalk w slots s p (Inr (baseConfigArray s), s)"
| cacheHit:
    "useEslintrc slots \<Longrightarrow> configCache s (dirname w p) = Some r \<Longrightarrow>
     ancestorsWalk w slots s p (Inr r, s)"
| stopped:
    "useEslintrc slots \<Longrightarrow> configCache s (dirname w p) = None \<Longrightarrow>
     consideredRoot w slots (dirname w p) p \<Longrightarrow>
     ancestorsWalk w slots s p
       (Inr (baseConfigArray s),
        s\<lparr>configCache := (configCache s)(dirname w p \<mapsto> baseConfigArray s)\<rparr>)"
| accessDenied:
    "useEslintrc slots \<Longrightarrow> configCache s (dirname w p) = None \<Longrightarrow>
     \<not> consideredRoot w slots (dirname w p) p \<Longrightarrow>
     loadOnDirectory w (dirname w p) None None s =
       (Inl (External (Thrown (Some ''EACCES''))), s1) \<Longrightarrow>
     ancestorsWalk w slots s p
       (Inr (baseConfigArray s1),
        s1\<lparr>configCache := (configCache s1)(dirname w p \<mapsto> baseConfigArray s1)\<rparr>)"
| loadFailed:
    "useEslintrc slots \<Longrightarrow> configCache s (dirname w p) = None \<Longrightarrow>
     \<not> consideredRoot w slots (dirname w p) p \<Longrightarrow>
     loadOnDirectory w (dirname w p) None None s = (Inl e, s1) \<Longrightarrow>
     e \<noteq> External (Thrown (Some ''EACCES'')) \<Longrightarrow>
     ancestorsWalk w slots s p (Inl e, s1)"
| rootTrue:
    "useEslintrc slots \<Longrightarrow> configCache s (dirname w p) = None \<Longrightarrow>
     \<not> consideredRoot w slots (dirname w p) p \<Longrightarrow>
     loadOnDirectory w (dirname w p) None None s = (Inr c, s1) \<Longrightarrow>
     cells s1 c \<noteq> [] \<Longrightarrow> arrayRoot w (cells s1 c) \<Longrightarrow>
     ancestorsWalk w slots s p
       (Inr c, s1\<lparr>configCache := (configCache s1)(dirname w p \<mapsto> c)\<rparr>)"
| ascendFailed:
    "useEslintrc slots \<Longrightarrow> configCache s (dirname w p) = None \<Longrightarrow>
     \<not> consideredRoot w slots (dirname w p) p \<Longrightarrow>
     loadOnDirectory w (dirname w p) None None s = (Inr c, s1) \<Longrightarrow>
     cells s1 c = [] \<or> \<not> arrayRoot w (cells s1 c) \<Longrightarrow>
     ancestorsWalk w slots s1 (dirname w p) (Inl e, s2) \<Longrightarrow>
     ancestorsWalk w slots s p (Inl e, s2)"
| ascendMerged:
    "useEslintrc slots \<Longrightarrow> configCache s (dirname w p) = None \<Longrightarrow>
     \<not> consideredRoot w slots (dirname w p) p \<Longrightarrow>
     loadOnDirectory w (dirname w p) None None s = (Inr c, s1) \<Longrightarrow>
     cells s1 c \<noteq> [] \<Longrightarrow> \<not> arrayRoot w (cells s1 c) \<Longrightarrow>
     ancestorsWalk w slots s1 (dirname w p) (Inr a, s2) \<Longrightarrow>
     ancestorsWalk w slots s p
       (Inr c, s2\<lparr>cells := (cells s2)(c := cells s2 a @ cells s2 c),
                  configCache := (configCache s2)(dirname w p \<mapsto> c)\<rparr>)"
| ascendInherited:
    "useEslintrc slots \<Longrightarrow> configCache s (dirname w p) = None \<Longrightarrow>
     \<not> consideredRoot w slots (dirname w p) p \<Longrightarrow>
     loadOnDirectory w (dirname w p) None None s = (Inr c, s1) \<Longrightarrow>
     cells s1 c = [] \<Longrightarrow>
     ancestorsWalk w slots s1 (dirname w p) (Inr a, s2) \<Longrightarrow>
     ancestorsWalk w slots s p
       (Inr a, s2\<lparr>configCache := (configCache s2)(dirname w p \<mapsto> a)\<rparr>)"

section \<open>An example installation\<close>

text \<open>
  A small world to run the enumerator in. \<open>posixDirname\<close> is \<open>path.dirname\<close> of
  Node on POSIX: the path up to the last separator that follows a name, trailing
  separators aside. \<open>posixResolve\<close> is \<open>path.resolve\<close> on paths that need no
  normalising. The attribute of an example element is its \<open>root\<close> flag, and the
  \<open>root\<close> of an array is that of its last element.
\<close>

definition posixDirname :: "path \<Rightarrow> path" where
  "posixDirname p =
     (if p = [] then ''.''
      else
        let hasRoot = (hd p = CHR ''/'');
            upToSeparator =
              dropWhile (\<lambda>c. c \<noteq> CHR ''/'') (dropWhile (\<lambda>c. c = CHR ''/'') (rev (tl p)))
        in if upToSeparator = [] then (if hasRoot then ''/'' else ''.'')
           else if hasRoot \<and> length upToSeparator = 1 then ''//''
           else take (length upToSeparator) p)"

definition posixResolve :: "path \<Rightarrow> path \<Rightarrow> path" where
  "posixResolve dir p = (if p \<noteq> [] \<and> hd p = CHR ''/'' then p else dir @ ''/'' @ p)"

definition exampleElement :: "string \<Rightarrow> path \<Rightarrow> bool \<Rightarrow> bool ConfigElement" where
  "exampleElement nm file isRoot =
     \<lparr>elemName = nm, elemFilePath = file, elemPlugins = [], elemAttributes = Some isRoot\<rparr>"

text \<open>
  The directories: \<open>/proj\<close> has a config file with \<open>root: true\<close>, \<open>/proj/lib\<close> has
  one without, \<open>/locked\<close> cannot be read (\<open>EACCES\<close>), reading \<open>/broken\<close> fails
  with \<open>EPERM\<close>, the home directory \<open>/home/u\<close> has a personal config file, and no
  other directory has a config file. \<open>/proj/lib\<close> holds the files \<open>a.js\<close>,
  \<open>b.js\<close> and \<open>notes.txt\<close>, and \<open>/proj/out\<close> holds \<open>gen.js\<close>, which is
  ignored.
\<close>

definition exampleWorld :: "bool World" where
  "exampleWorld =
     \<lparr>dirname = posixDirname,
      resolve = posixResolve,
      pathJoin = (\<lambda>dir f. dir @ ''/'' @ f),
      pathSep = CHR ''/'',
      homedir = ''/home/u'',
      statSync = (\<lambda>p.
        if p = ''/proj'' \<or> p = ''/proj/lib'' \<or> p = ''/proj/out'' then Inr IsDirectory
        else if p = ''/proj/lib/a.js'' \<or> p = ''/proj/lib/b.js'' \<or> p = ''/proj/lib/notes.txt'' \<or>
                p = ''/proj/out/gen.js''
        then Inr IsFile
        else Inl (Thrown (Some ''ENOENT''))),
      readdirSync = (\<lambda>p.
        if p = ''/proj'' then Inr [''lib'', ''out'']
        else if p = ''/proj/lib'' then Inr [''a.js'', ''b.js'', ''notes.txt'']
        else if p = ''/proj/out'' then Inr [''gen.js'']
        else Inl (Thrown (Some ''ENOENT''))),
      isGlob = (\<lambda>pattern. CHR ''*'' \<in> set pattern),
      getGlobParent = (\<lambda>pattern. posixDirname (takeWhile (\<lambda>c. c \<noteq> CHR ''*'') pattern @ ''x'')),
      minimatch = (\<lambda>pattern p. drop (length p - 3) p = drop (length pattern - 3) pattern),
      createData = (\<lambda>data nm. Inr (case data of None \<Rightarrow> [] | Some b \<Rightarrow> [exampleElement nm [] b])),
      fileData = (\<lambda>p nm. Inr [exampleElement nm p False]),
      directoryData = (\<lambda>dir nm.
        if dir = ''/proj'' then Inr [exampleElement ''.eslintrc.json'' ''/proj/.eslintrc.json'' True]
        else if dir = ''/proj/lib''
        then Inr [exampleElement ''.eslintrc.yml'' ''/proj/lib/.eslintrc.yml'' False]
        else if dir = ''/home/u''
        then Inr [exampleElement ''PersonalConfig'' ''/home/u/.eslintrc'' False]
        else if dir = ''/locked'' then Inl (Thrown (Some ''EACCES''))
        else if dir = ''/broken'' then Inl (Thrown (Some ''EPERM''))
        else Inr []),
      arrayRoot = (\<lambda>elements. elements \<noteq> [] \<and> elemAttributes (last elements) = Some True),
      validateConfigArray = (\<lambda>elements. None),
      loadRules = (\<lambda>rulesPath dir. Inr [])\<rparr>"

definition exampleSlots :: "bool Slots" where
  "exampleSlots =
     \<lparr>baseConfigData = None,
      cliConfigData = None,
      cwd = ''/proj'',
      extRegExp = (\<lambda>p. 3 < length p \<and> drop (length p - 3) p = ''.js''),
      globInputPaths = True,
      ignoreFlag = True,
      ignoredPaths = (\<lambda>p byDefault. p = ''/proj/out/gen.js''),
      ignoredPathsWithDotfiles = (\<lambda>p byDefault. p = ''/proj/out/gen.js''),
      rulePaths = Some [],
      specificConfigPath = None,
      useEslintrc = True\<rparr>"

text \<open>The state of a new enumerator in this world: two empty arrays, empty caches.\<close>

definition exampleState :: "bool State" where
  "exampleState =
     \<lparr>cells = (\<lambda>r. [])(0 := [], 1 := []), nextRef = 2, baseConfigArray = 0, cliConfigArray = 1,
      configCache = Map.empty, finalizeCache = Map.empty,
      factoryCalls = [Create ''BaseConfig'', Create ''CLIOptions'']\<rparr>"

text \<open>
  Two extracted configs. The plugins of the first were added in the order \<open>react\<close>,
  \<open>import\<close>; those of the second in the order \<open>2\<close>, \<open>1\<close>, the plugins
  \<open>eslint-plugin-2\<close> and \<open>eslint-plugin-1\<close>.
\<close>

definition exampleDependency :: "string \<Rightarrow> path \<Rightarrow> bool ConfigDependency" where
  "exampleDependency nm file =
     \<lparr>definitionRules = [], depFilePath = file, depId = nm,
      importerName = ''.eslintrc.json'', importerPath = ''/proj/.eslintrc.json''\<rparr>"

definition exampleExtracted :: "bool ExtractedConfig" where
  "exampleExtracted =
     \<lparr>env = [(''node'', True)], globals = [],
      parser = Some (exampleDependency ''espree'' ''/proj/node_modules/espree/espree.js''),
      parserOptions = False,
      plugins = [(''react'', exampleDependency ''react'' ''/proj/node_modules/eslint-plugin-react/index.js''),
                 (''import'', exampleDependency ''import'' ''/proj/node_modules/eslint-plugin-import/index.js'')],
      processor = Some ''markdown'',
      rules = [(''semi'', [True])], settings = False\<rparr>"

definition numberedPlugins :: "bool ExtractedConfig" where
  "numberedPlugins =
     \<lparr>env = [], globals = [], parser = None, parserOptions = False,
      plugins = [(''2'', exampleDependency ''2'' ''/proj/node_modules/eslint-plugin-2/index.js''),
                 (''1'', exampleDependency ''1'' ''/proj/node_modules/eslint-plugin-1/index.js'')],
      processor = None, rules = [], settings = False\<rparr>"

text \<open>
  States of the example enumerator: after the walk for \<open>/proj/lib/a.js\<close>, after
  \<open>getConfigArrayForFile("lib/a.js")\<close>, and after \<open>clearCache()\<close> then.
\<close>

definition exampleStateWalked :: "bool State" where
  "exampleStateWalked =
     snd (the (loadConfigInAncestorsRecursive exampleWorld exampleSlots exampleState
                 ''/proj/lib/a.js''))"

definition exampleStateAfter :: "bool State" where
  "exampleStateAfter =
     snd (the (getConfigArrayForFile exampleWorld exampleSlots exampleState ''lib/a.js''))"

definition exampleStateCleared :: "bool State" where
  "exampleStateCleared = snd (clearCache exampleWorld exampleSlots exampleStateAfter)"

text \<open>
  Variants of the example: a world whose config files are \<open>/.eslintrc.json\<close>, in
  the root directory, and the personal one; a world where the home directory has no config file; and an
  enumerator whose working directory is the home directory.
\<close>

definition rootConfigWorld :: "bool World" where
  "rootConfigWorld =
     exampleWorld
       \<lparr>directoryData := (\<lambda>dir nm.
          if dir = ''/'' then Inr [exampleElement ''.eslintrc.json'' ''/.eslintrc.json'' False]
          else if dir = ''/home/u''
          then Inr [exampleElement ''PersonalConfig'' ''/home/u/.eslintrc'' False]
          else Inr [])\<rparr>"

definition noHomeWorld :: "bool World" where
  "noHomeWorld = exampleWorld\<lparr>homedir := ''/nowhere''\<rparr>"


section \<open>Invariants of the state\<close>

text \<open>
  \<open>validRefs\<close>: every array the enumerator holds (the base array, the CLI array, the
  arrays in the two caches and the keys of the finalize cache) has been allocated.
  \<open>extends s s'\<close>: from \<open>s\<close> to \<open>s'\<close> arrays were only added and cache entries only
  added; no array of \<open>s\<close> was changed, and the base and CLI arrays are the same.
\<close>

definition validRefs :: "'x State \<Rightarrow> bool" where
  "validRefs s =
     (baseConfigArray s < nextRef s \<and> cliConfigArray s < nextRef s \<and>
      (\<forall>d r. configCache s d = Some r \<longrightarrow> r < nextRef s) \<and>
      (\<forall>k r. finalizeCache s k = Some r \<longrightarrow> k < nextRef s \<and> r < nextRef s))"

definition extends :: "'x State \<Rightarrow> 'x State \<Rightarrow> bool" where
  "extends s s' =
     (nextRef s \<le> nextRef s' \<and> (\<forall>r < nextRef s. cells s' r = cells s r) \<and>
      baseConfigArray s' = baseConfigArray s \<and> cliConfigArray s' = cliConfigArray s \<and>
      configCache s \<subseteq>\<^sub>m configCache s' \<and> finalizeCache s \<subseteq>\<^sub>m finalizeCache s')"

text \<open>
  \<open>onlyAllocates s s'\<close>: from \<open>s\<close> to \<open>s'\<close> arrays were added and nothing else
  changed. \<open>freshFrom n s\<close>: the base array and every cached array of \<open>s\<close> has an
  address from \<open>n\<close> on, and so has what the finalize cache holds for a raw array with
  such an address.
\<close>

definition onlyAllocates :: "'x State \<Rightarrow> 'x State \<Rightarrow> bool" where
  "onlyAllocates s s' =
     (baseConfigArray s' = baseConfigArray s \<and> cliConfigArray s' = cliConfigArray s \<and>
      configCache s' = configCache s \<and> finalizeCache s' = finalizeCache s \<and>
      nextRef s \<le> nextRef s' \<and> (\<forall>r < nextRef s. cells s' r = cells s r))"




definition returnedElements ::
  "((error + ref) \<times> 'x State) option \<Rightarrow> 'x ConfigElement list option" where
  "returnedElements y =
     (case y of Some (Inr r, s) \<Rightarrow> Some (cells s r) | Some (Inl e, s) \<Rightarrow> None | None \<Rightarrow> None)"

text \<open>
  \<open>noEmptyFinal\<close>: no finalized array in the finalize cache is empty.
  \<open>noEmptyRaw\<close>: the base array is not empty, and no array in the per-directory
  cache is.
\<close>

definition noEmptyFinal :: "'x State \<Rightarrow> bool" where
  "noEmptyFinal s = (\<forall>k r. finalizeCache s k = Some r \<longrightarrow> cells s r \<noteq> [])"

definition noEmptyRaw :: "'x State \<Rightarrow> bool" where
  "noEmptyRaw s =
     (cells s (baseConfigArray s) \<noteq> [] \<and>
      (\<forall>d r. configCache s d = Some r \<longrightarrow> cells s r \<noteq> []))"

text \<open>The two errors that \<open>iterateFiles\<close> raises for a pattern.\<close>

fun perPatternError :: "error \<Rightarrow> bool" where
  "perPatternError (NoFilesFoundError pattern globDisabled) = True"
| "perPatternError (AllFilesIgnoredError pattern) = True"
| "perPatternError (ConfigurationNotFoundError dir) = False"
| "perPatternError (External e) = False"

section \<open>Properties of the ancestor walk\<close>

lemma walk_sound:
  assumes "loadConfigInAncestorsRecursive w slots s p = Some y"
  shows "ancestorsWalk w slots s p y"
proof (rule loadConfigInAncestorsRecursive.raw_induct
         [where P = "\<lambda>w slots s p y. ancestorsWalk w slots s p y", OF _ assms], goal_cases)
  case (1 walk w slots s p y)
  note IH = 1(1) and body = 1(2)
  show ?case
  proof (cases "useEslintrc slots")
    case False
    with body show ?thesis by (auto intro: ancestorsWalk.disabled)
  next
    case use: True
    show ?thesis
    proof (cases "configCache s (dirname w p)")
      case (Some r)
      with body use show ?thesis by (auto intro: ancestorsWalk.cacheHit)
    next
      case miss: None
      show ?thesis
      proof (cases "consideredRoot w slots (dirname w p) p")
        case True
        with body use miss show ?thesis
          by (auto simp: Let_def intro: ancestorsWalk.stopped)
      next
        case go: False
        obtain res s1 where ld: "loadOnDirectory w (dirname w p) None None s = (res, s1)"
          by (cases "loadOnDirectory w (dirname w p) None None s")
        show ?thesis
        proof (cases res)
          case (Inl e)
          from body have "y = (if e = External (Thrown (Some ''EACCES''))
                  then (Inr (baseConfigArray s1),
                        s1\<lparr>configCache := (configCache s1)(dirname w p \<mapsto> baseConfigArray s1)\<rparr>)
                  else (Inl e, s1))"
            by (simp add: use miss go ld Inl Let_def split: if_splits)
          then show ?thesis
            using ancestorsWalk.accessDenied[OF use miss go, of s1]
              ancestorsWalk.loadFailed[OF use miss go, of e s1] ld Inl
            by (auto split: if_splits)
        next
          case (Inr c)
          show ?thesis
          proof (cases "cells s1 c \<noteq> [] \<and> arrayRoot w (cells s1 c)")
            case True
            from body have "y = (Inr c, s1\<lparr>configCache := (configCache s1)(dirname w p \<mapsto> c)\<rparr>)"
              using True by (simp add: use miss go ld Inr Let_def)
            then show ?thesis
              using ancestorsWalk.rootTrue[OF use miss go, of c s1] ld Inr True by simp
          next
            case notRoot: False
            from body
            obtain res2 s2 where rc: "walk w slots s1 (dirname w p) = Some (res2, s2)"
              using notRoot
              by (auto simp add: use miss go ld Inr Let_def bind_eq_Some_conv split: if_splits)
            from IH[OF rc] have aw: "ancestorsWalk w slots s1 (dirname w p) (res2, s2)" .
            have ld': "loadOnDirectory w (dirname w p) None None s = (Inr c, s1)"
              using ld Inr by simp
            show ?thesis
            proof (cases res2)
              case (Inl e)
              from body have "y = (Inl e, s2)"
                using notRoot by (auto simp add: use miss go ld Inr rc Inl Let_def split: if_splits)
              then show ?thesis
                using ancestorsWalk.ascendFailed[OF use miss go ld', of e s2] aw Inl notRoot
                by auto
            next
              case inr2: (Inr a)
              show ?thesis
              proof (cases "cells s1 c = []")
                case True
                from body
                have "y = (Inr a, s2\<lparr>configCache := (configCache s2)(dirname w p \<mapsto> a)\<rparr>)"
                  using True by (simp add: use miss go ld Inr rc inr2 Let_def)
                then show ?thesis
                  using ancestorsWalk.ascendInherited[OF use miss go ld' True, of a s2] aw inr2
                  by simp
              next
                case False
                with notRoot have nr: "\<not> arrayRoot w (cells s1 c)" by simp
                from body
                have "y = (Inr c, s2\<lparr>cells := (cells s2)(c := cells s2 a @ cells s2 c),
                                      configCache := (configCache s2)(dirname w p \<mapsto> c)\<rparr>)"
                  using False nr by (simp add: use miss go ld Inr rc inr2 Let_def)
                then show ?thesis
                  using ancestorsWalk.ascendMerged[OF use miss go ld' False nr, of a s2] aw inr2
                  by simp
              qed
            qed
          qed
        qed
      qed
    qed
  qed
qed

lemma walk_complete:
  assumes "ancestorsWalk w slots s p y"
  shows "loadConfigInAncestorsRecursive w slots s p = Some y"
  using assms
proof (induction rule: ancestorsWalk.induct)
  case (disabled s p)
  then show ?case by (subst loadConfigInAncestorsRecursive.simps) simp
next
  case (cacheHit s p r)
  then show ?case by (subst loadConfigInAncestorsRecursive.simps) simp
next
  case (stopped s p)
  then show ?case by (subst loadConfigInAncestorsRecursive.simps) (simp add: Let_def)
next
  case (accessDenied s p s1)
  then show ?case by (subst loadConfigInAncestorsRecursive.simps) (simp add: Let_def)
next
  case (loadFailed s p e s1)
  then show ?case by (subst loadConfigInAncestorsRecursive.simps) (simp add: Let_def)
next
  case (rootTrue s p c s1)
  then show ?case by (subst loadConfigInAncestorsRecursive.simps) (simp add: Let_def)
next
  case (ascendFailed s p c s1 e s2)
  then show ?case by (subst loadConfigInAncestorsRecursive.simps) (auto simp add: Let_def)
next
  case (ascendMerged s p c s1 a s2)
  then show ?case by (subst loadConfigInAncestorsRecursive.simps) (simp add: Let_def)
next
  case (ascendInherited s p c s1 a s2)
  then show ?case by (subst loadConfigInAncestorsRecursive.simps) (simp add: Let_def)
qed

lemma walk_iff:
  "loadConfigInAncestorsRecursive w slots s p = Some y \<longleftrightarrow> ancestorsWalk w slots s p y"
  using walk_sound walk_complete by blast

section \<open>What a load does\<close>



lemma load_error_cases:
  assumes "loadOnDirectory w d nm parent s = (Inl e, s1)"
  shows "\<exists>t. directoryData w d nm = Inl t \<and> e = External t"
  using assms
  by (auto simp: loadOnDirectory_def newConfigArray_def Let_def
           split: sum.splits option.splits if_splits)


section \<open>The walk keeps the state well formed\<close>

lemma extends_refl: "extends s s"
  by (simp add: extends_def)

lemma extends_trans: "extends s s1 \<Longrightarrow> extends s1 s2 \<Longrightarrow> extends s s2"
  unfolding extends_def
  by (auto intro: map_le_trans)

lemma load_none_cases [consumes 1, case_names threw loaded]:
  assumes "loadOnDirectory w d nm None s = (res, s1)"
  obtains
    (threw) t where "directoryData w d nm = Inl t" "res = Inl (External t)"
      "s1 = s\<lparr>factoryCalls := factoryCalls s @ [LoadOnDirectory d nm None]\<rparr>"
  | (loaded) els where "directoryData w d nm = Inr els" "res = Inr (nextRef s)"
      "s1 = s\<lparr>factoryCalls := factoryCalls s @ [LoadOnDirectory d nm None],
              cells := (cells s)(nextRef s := els), nextRef := Suc (nextRef s)\<rparr>"
  using assms
  by (cases "directoryData w d nm")
     (auto simp: loadOnDirectory_def newConfigArray_def)

lemma load_none_invariants:
  assumes "loadOnDirectory w d nm None s = (res, s1)" and "validRefs s"
  shows "validRefs s1 \<and> extends s s1 \<and> configCache s1 = configCache s \<and>
         (\<forall>r. res = Inr r \<longrightarrow> r = nextRef s \<and> nextRef s1 = Suc (nextRef s))"
  using assms(1)
proof (cases rule: load_none_cases)
  case (threw t)
  with assms(2) show ?thesis by (auto simp: validRefs_def extends_def)
next
  case (loaded els)
  with assms(2) show ?thesis by (auto simp: validRefs_def extends_def less_Suc_eq)
qed

lemma validRefs_cache_update:
  "validRefs s \<Longrightarrow> r < nextRef s \<Longrightarrow>
   validRefs (s\<lparr>configCache := (configCache s)(d \<mapsto> r)\<rparr>)"
  by (simp add: validRefs_def)

lemma extends_cache_update:
  "extends s s2 \<Longrightarrow> configCache s d = None \<Longrightarrow>
   extends s (s2\<lparr>configCache := (configCache s2)(d \<mapsto> r)\<rparr>)"
  by (simp add: extends_def map_le_def dom_def)

lemma validRefs_cells_update:
  "validRefs s \<Longrightarrow> validRefs (s\<lparr>cells := f\<rparr>)"
  by (simp add: validRefs_def)

lemma extends_cells_update:
  "extends s s2 \<Longrightarrow> nextRef s \<le> c \<Longrightarrow>
   extends s (s2\<lparr>cells := (cells s2)(c := x)\<rparr>)"
  by (simp add: extends_def)

lemma extends_nextRef: "extends s s' \<Longrightarrow> nextRef s \<le> nextRef s'"
  by (simp add: extends_def)

lemma extends_base: "extends s s' \<Longrightarrow> baseConfigArray s' = baseConfigArray s"
  by (simp add: extends_def)

lemma validRefs_base: "validRefs s \<Longrightarrow> baseConfigArray s < nextRef s"
  by (simp add: validRefs_def)

lemma validRefs_cached: "validRefs s \<Longrightarrow> configCache s d = Some r \<Longrightarrow> r < nextRef s"
  by (simp add: validRefs_def)

lemma walk_invariants:
  assumes "ancestorsWalk w slots s p y" and "validRefs s"
  shows "validRefs (snd y) \<and> extends s (snd y) \<and> (\<forall>r. fst y = Inr r \<longrightarrow> r < nextRef (snd y))"
  using assms
proof (induction rule: ancestorsWalk.induct)
  case (disabled s p)
  then show ?case by (simp add: validRefs_base extends_refl)
next
  case (cacheHit s p r)
  then show ?case by (simp add: validRefs_cached extends_refl)
next
  case (stopped s p)
  then show ?case
    by (simp add: validRefs_base validRefs_cache_update extends_cache_update extends_refl)
next
  case (accessDenied s p s1)
  from load_none_invariants[OF accessDenied(4,5)]
  have v1: "validRefs s1" and e1: "extends s s1" and c1: "configCache s1 = configCache s"
    by auto
  from v1 e1 accessDenied(2) show ?case
    by (simp add: validRefs_base validRefs_cache_update extends_cache_update)
next
  case (loadFailed s p e s1)
  from load_none_invariants[OF loadFailed(4,6)]
  show ?case by simp
next
  case (rootTrue s p c s1)
  from load_none_invariants[OF rootTrue(4,7)]
  have v1: "validRefs s1" and e1: "extends s s1" and c1: "configCache s1 = configCache s"
    and cn: "c = nextRef s" "nextRef s1 = Suc (nextRef s)" by auto
  from v1 e1 cn rootTrue(2) show ?case
    by (simp add: validRefs_cache_update extends_cache_update)
next
  case (ascendFailed s p c s1 e s2)
  from load_none_invariants[OF ascendFailed(4,8)]
  have v1: "validRefs s1" and e1: "extends s s1" by auto
  from ascendFailed.IH[OF v1]
  have v2: "validRefs s2" and e2: "extends s1 s2" by auto
  from extends_trans[OF e1 e2] v2 show ?case by simp
next
  case (ascendMerged s p c s1 a s2)
  from load_none_invariants[OF ascendMerged(4,9)]
  have v1: "validRefs s1" and e1: "extends s s1" and c1: "configCache s1 = configCache s"
    and cn: "c = nextRef s" "nextRef s1 = Suc (nextRef s)" by auto
  from ascendMerged.IH[OF v1]
  have v2: "validRefs s2" and e2: "extends s1 s2" and a2: "a < nextRef s2" by auto
  from extends_trans[OF e1 e2] have e: "extends s s2" .
  have lt: "c < nextRef s2" using cn extends_nextRef[OF e2] by simp
  let ?s3 = "s2\<lparr>cells := (cells s2)(c := cells s2 a @ cells s2 c)\<rparr>"
  have v3: "validRefs ?s3" using v2 by (rule validRefs_cells_update)
  have e3: "extends s ?s3" using e cn by (intro extends_cells_update) simp_all
  have lt3: "c < nextRef ?s3" using lt by simp
  from validRefs_cache_update[OF v3 lt3, of "dirname w p"]
    extends_cache_update[OF e3 ascendMerged(2), of c] lt
  show ?case by simp
next
  case (ascendInherited s p c s1 a s2)
  from load_none_invariants[OF ascendInherited(4,8)]
  have v1: "validRefs s1" and e1: "extends s s1" by auto
  from ascendInherited.IH[OF v1]
  have v2: "validRefs s2" and e2: "extends s1 s2" and a2: "a < nextRef s2" by auto
  from extends_trans[OF e1 e2] have e: "extends s s2" .
  from validRefs_cache_update[OF v2 a2, of "dirname w p"]
    extends_cache_update[OF e ascendInherited(2), of a] a2
  show ?case by simp
qed

lemma walk_frame:
  assumes "ancestorsWalk w slots s p y"
  shows "nextRef s \<le> nextRef (snd y) \<and> (\<forall>r < nextRef s. cells (snd y) r = cells s r) \<and>
         (\<exists>more. factoryCalls (snd y) = factoryCalls s @ more)"
  using assms
proof (induction rule: ancestorsWalk.induct)
  case (accessDenied s p s1)
  from accessDenied(4) show ?case by (cases rule: load_none_cases) auto
next
  case (loadFailed s p e s1)
  from loadFailed(4) show ?case by (cases rule: load_none_cases) auto
next
  case (rootTrue s p c s1)
  from rootTrue(4) show ?case by (cases rule: load_none_cases) auto
next
  case (ascendFailed s p c s1 e s2)
  from ascendFailed(4) have "nextRef s \<le> nextRef s1 \<and> (\<forall>r < nextRef s. cells s1 r = cells s r) \<and>
         (\<exists>more. factoryCalls s1 = factoryCalls s @ more)"
    by (cases rule: load_none_cases) auto
  with ascendFailed.IH show ?case by auto
next
  case (ascendMerged s p c s1 a s2)
  from ascendMerged(4) have "nextRef s \<le> nextRef s1 \<and> (\<forall>r < nextRef s. cells s1 r = cells s r) \<and>
         (\<exists>more. factoryCalls s1 = factoryCalls s @ more) \<and> c = nextRef s"
    by (cases rule: load_none_cases) auto
  with ascendMerged.IH show ?case by auto
next
  case (ascendInherited s p c s1 a s2)
  from ascendInherited(4) have "nextRef s \<le> nextRef s1 \<and> (\<forall>r < nextRef s. cells s1 r = cells s r) \<and>
         (\<exists>more. factoryCalls s1 = factoryCalls s @ more)"
    by (cases rule: load_none_cases) auto
  with ascendInherited.IH show ?case by auto
qed simp_all


lemma walk_keeps:
  assumes "ancestorsWalk w slots s p y"
  shows "finalizeCache (snd y) = finalizeCache s \<and>
         baseConfigArray (snd y) = baseConfigArray s \<and>
         cliConfigArray (snd y) = cliConfigArray s"
  using assms
proof (induction rule: ancestorsWalk.induct)
  case (accessDenied s p s1)
  from accessDenied(4) show ?case by (cases rule: load_none_cases) auto
next
  case (loadFailed s p e s1)
  from loadFailed(4) show ?case by (cases rule: load_none_cases) auto
next
  case (rootTrue s p c s1)
  from rootTrue(4) show ?case by (cases rule: load_none_cases) auto
next
  case (ascendFailed s p c s1 e s2)
  from ascendFailed(4) have "finalizeCache s1 = finalizeCache s \<and>
      baseConfigArray s1 = baseConfigArray s \<and> cliConfigArray s1 = cliConfigArray s"
    by (cases rule: load_none_cases) auto
  with ascendFailed.IH show ?case by simp
next
  case (ascendMerged s p c s1 a s2)
  from ascendMerged(4) have "finalizeCache s1 = finalizeCache s \<and>
      baseConfigArray s1 = baseConfigArray s \<and> cliConfigArray s1 = cliConfigArray s"
    by (cases rule: load_none_cases) auto
  with ascendMerged.IH show ?case by simp
next
  case (ascendInherited s p c s1 a s2)
  from ascendInherited(4) have "finalizeCache s1 = finalizeCache s \<and>
      baseConfigArray s1 = baseConfigArray s \<and> cliConfigArray s1 = cliConfigArray s"
    by (cases rule: load_none_cases) auto
  with ascendInherited.IH show ?case by simp
qed simp_all



section \<open>Errors of the loader during the walk\<close>

text \<open>
  An exception of the walk for a parent directory leaves the walk for the child as it
  is: the recursive call is outside the \<open>try\<close> block.
\<close>

lemma walk_propagates:
  assumes "useEslintrc slots"
    and "configCache s (dirname w q) = None"
    and "\<not> consideredRoot w slots (dirname w q) q"
    and "loadOnDirectory w (dirname w q) None None s = (Inr c, s1)"
    and "cells s1 c = [] \<or> \<not> arrayRoot w (cells s1 c)"
    and "loadConfigInAncestorsRecursive w slots s1 (dirname w q) = Some (Inl e, s2)"
  shows "loadConfigInAncestorsRecursive w slots s q = Some (Inl e, s2)"
proof -
  from assms(6) have "ancestorsWalk w slots s1 (dirname w q) (Inl e, s2)"
    by (rule walk_sound)
  from ancestorsWalk.ascendFailed[OF assms(1-5) this] show ?thesis
    by (rule walk_complete)
qed

text \<open>
  Whatever the walk throws is what the loader threw for some directory, and it is never
  the access-denied error.
\<close>

lemma walk_throws_loader_errors:
  assumes "ancestorsWalk w slots s p y"
  shows "\<forall>e. fst y = Inl e \<longrightarrow>
           (\<exists>d t. directoryData w d None = Inl t \<and> e = External t \<and>
                  t \<noteq> Thrown (Some ''EACCES''))"
  using assms
proof (induction rule: ancestorsWalk.induct)
  case (loadFailed s p e s1)
  from load_error_cases[OF loadFailed(4)] loadFailed(5) show ?case
    by auto
qed simp_all


lemma example_dirnames:
  "posixDirname ''/proj/lib/a.js'' = ''/proj/lib''"
  "posixDirname ''/proj/lib/b.js'' = ''/proj/lib''"
  "posixDirname ''/proj/lib'' = ''/proj''"
  "posixDirname ''/proj'' = ''/''"
  "posixDirname ''/'' = ''/''"
  "posixDirname ''/locked/a.js'' = ''/locked''"
  "posixDirname ''/broken/a.js'' = ''/broken''"
  "posixDirname ''/plain/a.js'' = ''/plain''"
  "posixDirname ''/plain'' = ''/''"
  "posixDirname ''/home/u/a.js'' = ''/home/u''"
  "posixDirname ''/home/u'' = ''/home''"
  "posixDirname ''/home'' = ''/''"
  by (simp_all add: posixDirname_def)


section \<open>Properties of the finalizer\<close>

lemma load_calls:
  "factoryCalls (snd (loadOnDirectory w d nm parent s)) =
     factoryCalls s @ [LoadOnDirectory d nm parent]"
  by (simp add: loadOnDirectory_def newConfigArray_def Let_def split: sum.splits option.splits)

lemma personal_calls:
  "factoryCalls (snd (loadPersonalConfig w slots s configArray)) =
     factoryCalls s @
       (if useEslintrc slots \<and>
           list_all (\<lambda>c. elemFilePath c = []) (cells s configArray) \<and>
           list_all (\<lambda>c. elemFilePath c = []) (cells s (cliConfigArray s))
        then [LoadOnDirectory (homedir w) (Some ''PersonalConfig'') (Some configArray)]
        else [])"
  by (simp add: loadPersonalConfig_def load_calls)

lemma cli_calls: "factoryCalls (snd (applyCLIOptions s r)) = factoryCalls s"
  by (simp add: applyCLIOptions_def newConfigArray_def)

lemma finalize_hit:
  "finalizeCache s configArray = Some fin \<Longrightarrow>
   finalizeConfigArray w slots s configArray dir =
     (if useEslintrc slots \<and> cells s fin = []
      then (Inl (ConfigurationNotFoundError dir), s) else (Inr fin, s))"
  by (simp add: finalizeConfigArray_def)

text \<open>The three ways through a finalization that is not in the cache.\<close>

lemma finalize_miss_cases [consumes 1, case_names loadThrew invalid stored]:
  assumes "finalizeCache s configArray = None"
  obtains
    (loadThrew) e s1 where
      "loadPersonalConfig w slots s configArray = (Inl e, s1)"
      "finalizeConfigArray w slots s configArray dir = (Inl e, s1)"
  | (invalid) loaded s1 fin s2 t where
      "loadPersonalConfig w slots s configArray = (Inr loaded, s1)"
      "applyCLIOptions s1 loaded = (fin, s2)"
      "validateConfigArray w (cells s2 fin) = Some t"
      "finalizeConfigArray w slots s configArray dir = (Inl (External t), s2)"
  | (stored) loaded s1 fin s2 where
      "loadPersonalConfig w slots s configArray = (Inr loaded, s1)"
      "applyCLIOptions s1 loaded = (fin, s2)"
      "validateConfigArray w (cells s2 fin) = None"
      "finalizeConfigArray w slots s configArray dir =
         (if useEslintrc slots \<and> cells s2 fin = []
          then (Inl (ConfigurationNotFoundError dir),
                s2\<lparr>finalizeCache := (finalizeCache s2)(configArray \<mapsto> fin)\<rparr>)
          else (Inr fin, s2\<lparr>finalizeCache := (finalizeCache s2)(configArray \<mapsto> fin)\<rparr>))"
proof -
  obtain r1 s1 where st1: "loadPersonalConfig w slots s configArray = (r1, s1)"
    by (cases "loadPersonalConfig w slots s configArray")
  show thesis
  proof (cases r1)
    case (Inl e)
    with st1 assms show thesis
      by (intro loadThrew[of e s1]) (simp_all add: finalizeConfigArray_def)
  next
    case (Inr loaded)
    obtain fin s2 where st2: "applyCLIOptions s1 loaded = (fin, s2)"
      by (cases "applyCLIOptions s1 loaded")
    show thesis
    proof (cases "validateConfigArray w (cells s2 fin)")
      case None
      with st1 st2 Inr assms show thesis
        by (intro stored[of loaded s1 fin s2]) (simp_all add: finalizeConfigArray_def)
    next
      case (Some t)
      with st1 st2 Inr assms show thesis
        by (intro invalid[of loaded s1 fin s2 t]) (simp_all add: finalizeConfigArray_def)
    qed
  qed
qed

lemma configuration_not_found_iff_finalize:
  "(fst (finalizeConfigArray w slots s configArray dir) = Inl (ConfigurationNotFoundError d) \<longleftrightarrow>
      d = dir \<and> useEslintrc slots \<and>
      (\<exists>fin. finalizeCache (snd (finalizeConfigArray w slots s configArray dir)) configArray = Some fin \<and>
             cells (snd (finalizeConfigArray w slots s configArray dir)) fin = []))"
proof (cases "finalizeCache s configArray")
  case (Some fin)
  then show ?thesis by (auto simp: finalize_hit)
next
  case None
  have keep1: "finalizeCache (snd (loadPersonalConfig w slots s configArray)) = finalizeCache s"
    by (simp add: loadPersonalConfig_def loadOnDirectory_def newConfigArray_def Let_def
          split: sum.splits option.splits)
  have keep2: "\<And>s1 r. finalizeCache (snd (applyCLIOptions s1 r)) = finalizeCache s1"
    by (simp add: applyCLIOptions_def newConfigArray_def)
  from None show ?thesis
  proof (cases rule: finalize_miss_cases[where w = w and slots = slots and dir = dir])
    case (loadThrew e s1)
    moreover from loadThrew(1) obtain t where "e = External t"
      by (auto simp: loadPersonalConfig_def dest: load_error_cases split: if_splits)
    ultimately show ?thesis using keep1 None by simp
  next
    case (invalid loaded s1 fin s2 t)
    then show ?thesis using keep1 keep2[of s1 loaded] None by simp
  next
    case (stored loaded s1 fin s2)
    then show ?thesis by auto
  qed
qed

lemma load_parent_cases [consumes 1, case_names threw unchanged layered]:
  assumes "loadOnDirectory w d nm (Some parent) s = (res, s1)"
  obtains
    (threw) t where "directoryData w d nm = Inl t" "res = Inl (External t)"
      "s1 = s\<lparr>factoryCalls := factoryCalls s @ [LoadOnDirectory d nm (Some parent)]\<rparr>"
  | (unchanged) "directoryData w d nm = Inr []" "res = Inr parent"
      "s1 = s\<lparr>factoryCalls := factoryCalls s @ [LoadOnDirectory d nm (Some parent)]\<rparr>"
  | (layered) els where "directoryData w d nm = Inr els" "els \<noteq> []" "res = Inr (nextRef s)"
      "s1 = s\<lparr>factoryCalls := factoryCalls s @ [LoadOnDirectory d nm (Some parent)],
              cells := (cells s)(nextRef s := cells s parent @ els),
              nextRef := Suc (nextRef s)\<rparr>"
  using assms
  by (cases "directoryData w d nm")
     (auto simp: loadOnDirectory_def newConfigArray_def Let_def split: if_splits)

lemma load_parent_invariants:
  assumes "loadOnDirectory w d nm (Some parent) s = (res, s1)"
    and "validRefs s" and "parent < nextRef s"
  shows "validRefs s1 \<and> extends s s1 \<and> configCache s1 = configCache s \<and>
         finalizeCache s1 = finalizeCache s \<and>
         (\<forall>r. res = Inr r \<longrightarrow> r < nextRef s1 \<and> (r = parent \<or> nextRef s \<le> r) \<and>
              (cells s parent \<noteq> [] \<longrightarrow> cells s1 r \<noteq> []))"
  using assms(1)
proof (cases rule: load_parent_cases)
  case (threw t)
  with assms(2) show ?thesis by (auto simp: validRefs_def extends_def)
next
  case unchanged
  with assms(2,3) show ?thesis by (auto simp: validRefs_def extends_def)
next
  case (layered els)
  with assms(2,3) show ?thesis by (auto simp: validRefs_def extends_def less_Suc_eq)
qed

lemma personal_invariants:
  assumes "loadPersonalConfig w slots s raw = (res, s1)"
    and "validRefs s" and "raw < nextRef s"
  shows "validRefs s1 \<and> extends s s1 \<and> configCache s1 = configCache s \<and>
         finalizeCache s1 = finalizeCache s \<and>
         (\<forall>r. res = Inr r \<longrightarrow> r < nextRef s1 \<and> (r = raw \<or> nextRef s \<le> r) \<and>
              (cells s raw \<noteq> [] \<longrightarrow> cells s1 r \<noteq> []))"
proof (cases "useEslintrc slots \<and>
         list_all (\<lambda>c. elemFilePath c = []) (cells s raw) \<and>
         list_all (\<lambda>c. elemFilePath c = []) (cells s (cliConfigArray s))")
  case True
  with assms(1)
  have "loadOnDirectory w (homedir w) (Some ''PersonalConfig'') (Some raw) s = (res, s1)"
    by (simp add: loadPersonalConfig_def)
  from load_parent_invariants[OF this assms(2,3)] show ?thesis .
next
  case False
  with assms(1) have "res = Inr raw" "s1 = s" by (auto simp: loadPersonalConfig_def)
  with assms(2,3) show ?thesis by (simp add: extends_refl)
qed

lemma cli_invariants:
  assumes "applyCLIOptions s1 loaded = (fin, s2)"
    and "validRefs s1" and "loaded < nextRef s1"
  shows "validRefs s2 \<and> extends s1 s2 \<and> configCache s2 = configCache s1 \<and>
         finalizeCache s2 = finalizeCache s1 \<and> fin < nextRef s2 \<and>
         (fin = loaded \<or> nextRef s1 \<le> fin) \<and>
         cells s2 fin = cells s1 loaded @ cells s1 (cliConfigArray s1)"
proof (cases "cells s1 (cliConfigArray s1) = []")
  case True
  with assms show ?thesis by (auto simp: applyCLIOptions_def extends_refl)
next
  case False
  with assms(1) have "fin = nextRef s1"
    "s2 = s1\<lparr>cells := (cells s1)(nextRef s1 := cells s1 loaded @ cells s1 (cliConfigArray s1)),
             nextRef := Suc (nextRef s1)\<rparr>"
    by (auto simp: applyCLIOptions_def newConfigArray_def)
  with assms(2,3) show ?thesis by (auto simp: validRefs_def extends_def less_Suc_eq)
qed

lemma validRefs_finalize_update:
  "validRefs s \<Longrightarrow> k < nextRef s \<Longrightarrow> r < nextRef s \<Longrightarrow>
   validRefs (s\<lparr>finalizeCache := (finalizeCache s)(k \<mapsto> r)\<rparr>)"
  by (simp add: validRefs_def)

lemma extends_finalize_update:
  "extends s s2 \<Longrightarrow> finalizeCache s k = None \<Longrightarrow>
   extends s (s2\<lparr>finalizeCache := (finalizeCache s2)(k \<mapsto> r)\<rparr>)"
  by (simp add: extends_def map_le_def dom_def)

lemma validRefs_finalized:
  "validRefs s \<Longrightarrow> finalizeCache s k = Some r \<Longrightarrow> r < nextRef s"
  by (simp add: validRefs_def)

text \<open>
  What a finalization does to the state, and what it returns: the array is allocated,
  it is the one now cached for the raw array, it is the cached one or a new one or the
  raw array itself, and it is not empty if config files are in use.
\<close>

lemma finalize_invariants:
  assumes "finalizeConfigArray w slots s raw dir = (res, s')"
    and "validRefs s" and "raw < nextRef s"
  shows "validRefs s' \<and> extends s s' \<and> configCache s' = configCache s \<and>
         (\<forall>r. res = Inr r \<longrightarrow>
            r < nextRef s' \<and> finalizeCache s' raw = Some r \<and>
            (useEslintrc slots \<longrightarrow> cells s' r \<noteq> []) \<and>
            (finalizeCache s raw = Some r \<or> r = raw \<or> nextRef s \<le> r))"
proof (cases "finalizeCache s raw")
  case (Some fin)
  with assms show ?thesis
    by (auto simp: finalize_hit extends_refl validRefs_finalized split: if_splits)
next
  case None
  then show ?thesis
  proof (cases rule: finalize_miss_cases[where w = w and slots = slots and dir = dir])
    case (loadThrew e s1)
    from loadThrew(2) assms(1) have rs: "res = Inl e" "s' = s1" by simp_all
    with personal_invariants[OF loadThrew(1) assms(2,3)] show ?thesis by simp
  next
    case (invalid loaded s1 fin s2 t)
    from personal_invariants[OF invalid(1) assms(2,3)]
    have v1: "validRefs s1" and e1: "extends s s1" and c1: "configCache s1 = configCache s"
      and l1: "loaded < nextRef s1" by auto
    from cli_invariants[OF invalid(2) v1 l1]
    have v2: "validRefs s2" and e2: "extends s1 s2" and c2: "configCache s2 = configCache s1"
      by auto
    from invalid(4) assms(1) have rs: "res = Inl (External t)" "s' = s2" by simp_all
    with v2 extends_trans[OF e1 e2] c1 c2 show ?thesis by simp
  next
    case (stored loaded s1 fin s2)
    from personal_invariants[OF stored(1) assms(2,3)]
    have v1: "validRefs s1" and e1: "extends s s1" and c1: "configCache s1 = configCache s"
      and l1: "loaded < nextRef s1" and o1: "loaded = raw \<or> nextRef s \<le> loaded" by auto
    from cli_invariants[OF stored(2) v1 l1]
    have v2: "validRefs s2" and e2: "extends s1 s2" and c2: "configCache s2 = configCache s1"
      and l2: "fin < nextRef s2" and o2: "fin = loaded \<or> nextRef s1 \<le> fin" by auto
    from extends_trans[OF e1 e2] have e: "extends s s2" .
    have rawlt: "raw < nextRef s2" using assms(3) extends_nextRef[OF e] by simp
    let ?s3 = "s2\<lparr>finalizeCache := (finalizeCache s2)(raw \<mapsto> fin)\<rparr>"
    have v3: "validRefs ?s3" using v2 rawlt l2 by (rule validRefs_finalize_update)
    have e3: "extends s ?s3" using e None by (rule extends_finalize_update)
    have o: "fin = raw \<or> nextRef s \<le> fin"
      using o1 o2 extends_nextRef[OF e1] by auto
    from stored(4) assms(1) have s': "s' = ?s3"
      by (auto split: if_splits)
    from stored(4) assms(1)
    have res: "res = (if useEslintrc slots \<and> cells s2 fin = []
                      then Inl (ConfigurationNotFoundError dir) else Inr fin)"
      by (auto split: if_splits)
    from v3 e3 c1 c2 l2 o show ?thesis
      unfolding s' res by (auto split: if_splits)
  qed
qed

section \<open>Properties of \<open>getConfigArrayForFile\<close>\<close>

lemma walk_result_cached:
  assumes "ancestorsWalk w slots s p (Inr r, s')"
  shows "if useEslintrc slots then configCache s' (dirname w p) = Some r
         else r = baseConfigArray s' \<and> s' = s"
  using assms
  by (cases rule: ancestorsWalk.cases) auto

lemma get_unfold:
  "getConfigArrayForFile w slots s f =
     (case loadConfigInAncestorsRecursive w slots s (resolve w (cwd slots) f) of
        None \<Rightarrow> None
      | Some (Inl e, s1) \<Rightarrow> Some (Inl e, s1)
      | Some (Inr raw, s1) \<Rightarrow>
          Some (finalizeConfigArray w slots s1 raw (dirname w (resolve w (cwd slots) f))))"
  by (simp add: getConfigArrayForFile_def loadConfigInAncestors_def Let_def
        split: option.splits sum.splits prod.splits)

lemma get_returns_cases:
  assumes "getConfigArrayForFile w slots s f = Some (Inr r, s')"
  obtains raw s1 where
    "ancestorsWalk w slots s (resolve w (cwd slots) f) (Inr raw, s1)"
    "finalizeConfigArray w slots s1 raw (dirname w (resolve w (cwd slots) f)) = (Inr r, s')"
  using assms
  by (auto simp: get_unfold walk_iff split: option.splits sum.splits prod.splits)

lemma get_invariants:
  assumes "getConfigArrayForFile w slots s f = Some (res, s')" and "validRefs s"
  shows "validRefs s' \<and> extends s s' \<and> (\<forall>r. res = Inr r \<longrightarrow> r < nextRef s')"
proof -
  from assms(1) obtain res1 s1 where
    walk: "ancestorsWalk w slots s (resolve w (cwd slots) f) (res1, s1)"
    by (auto simp: get_unfold walk_iff split: option.splits)
  from walk_invariants[OF walk assms(2)]
  have v1: "validRefs s1" and e1: "extends s s1" and lt: "\<forall>r. res1 = Inr r \<longrightarrow> r < nextRef s1"
    by auto
  show ?thesis
  proof (cases res1)
    case (Inl e)
    with assms(1) walk v1 e1 show ?thesis
      by (auto simp: get_unfold walk_iff[symmetric])
  next
    case (Inr raw)
    with assms(1) walk
    have fin: "finalizeConfigArray w slots s1 raw (dirname w (resolve w (cwd slots) f)) = (res, s')"
      by (auto simp: get_unfold walk_iff[symmetric])
    from finalize_invariants[OF fin v1] lt Inr extends_trans[OF e1]
    show ?thesis by auto
  qed
qed

section \<open>Properties of construction and \<open>clearCache\<close>\<close>

lemma create_cases [consumes 1, case_names threw created]:
  assumes "create w data nm s = (res, s1)"
  obtains
    (threw) t where "createData w data nm = Inl t" "res = Inl (External t)"
      "s1 = s\<lparr>factoryCalls := factoryCalls s @ [Create nm]\<rparr>"
  | (created) els where "createData w data nm = Inr els" "res = Inr (nextRef s)"
      "s1 = s\<lparr>factoryCalls := factoryCalls s @ [Create nm],
              cells := (cells s)(nextRef s := els), nextRef := Suc (nextRef s)\<rparr>"
  using assms
  by (cases "createData w data nm") (auto simp: create_def newConfigArray_def)

lemma loadFile_cases [consumes 1, case_names threw loaded]:
  assumes "loadFile w f nm s = (res, s1)"
  obtains
    (threw) t where "fileData w f nm = Inl t" "res = Inl (External t)"
      "s1 = s\<lparr>factoryCalls := factoryCalls s @ [LoadFile f nm]\<rparr>"
  | (loaded) els where "fileData w f nm = Inr els" "res = Inr (nextRef s)"
      "s1 = s\<lparr>factoryCalls := factoryCalls s @ [LoadFile f nm],
              cells := (cells s)(nextRef s := els), nextRef := Suc (nextRef s)\<rparr>"
  using assms
  by (cases "fileData w f nm") (auto simp: loadFile_def newConfigArray_def)

lemma createBase_result:
  assumes "createBaseConfigArray w slots s = (Inr b, s1)"
  shows "b = nextRef s \<and> nextRef s1 = Suc (nextRef s) \<and> onlyAllocates s s1"
proof -
  obtain res0 s0 where c: "create w (baseConfigData slots) ''BaseConfig'' s = (res0, s0)"
    by (cases "create w (baseConfigData slots) ''BaseConfig'' s")
  from c show ?thesis
  proof (cases rule: create_cases)
    case (threw t)
    with c assms show ?thesis by (simp add: createBaseConfigArray_def)
  next
    case (created els)
    with c assms show ?thesis
      by (auto simp: createBaseConfigArray_def onlyAllocates_def
               split: option.splits if_splits sum.splits)
  qed
qed

lemma createCLI_result:
  assumes "createCLIConfigArray w slots s = (Inr c, s1)"
  shows "c = nextRef s \<and> Suc (nextRef s) \<le> nextRef s1 \<and> onlyAllocates s s1"
proof -
  obtain res0 s0 where c: "create w (cliConfigData slots) ''CLIOptions'' s = (res0, s0)"
    by (cases "create w (cliConfigData slots) ''CLIOptions'' s")
  from c show ?thesis
  proof (cases rule: create_cases)
    case (threw t)
    with c assms show ?thesis by (simp add: createCLIConfigArray_def)
  next
    case (created els)
    show ?thesis
    proof (cases "specificConfigPath slots")
      case None
      with created c assms show ?thesis
        by (auto simp: createCLIConfigArray_def onlyAllocates_def)
    next
      case (Some configPath)
      show ?thesis
      proof (cases "configPath = []")
        case True
        with Some created c assms show ?thesis
          by (auto simp: createCLIConfigArray_def onlyAllocates_def)
      next
        case False
        obtain res2 s2 where l: "loadFile w configPath ''--config'' s0 = (res2, s2)"
          by (cases "loadFile w configPath ''--config'' s0")
        from l show ?thesis
        proof (cases rule: loadFile_cases)
          case (threw t)
          with l False Some created c assms show ?thesis
            by (simp add: createCLIConfigArray_def)
        next
          case (loaded els2)
          with l False Some created c assms show ?thesis
            by (auto simp: createCLIConfigArray_def onlyAllocates_def)
        qed
      qed
    qed
  qed
qed

lemma clearCache_result:
  assumes "clearCache w slots s = (None, s')"
  shows "baseConfigArray s' = nextRef s \<and> cliConfigArray s' = Suc (nextRef s) \<and>
         Suc (Suc (nextRef s)) \<le> nextRef s' \<and>
         configCache s' = Map.empty \<and> finalizeCache s' = finalizeCache s \<and>
         (\<forall>r < nextRef s. cells s' r = cells s r)"
proof -
  obtain res1 s1 where b: "createBaseConfigArray w slots s = (res1, s1)"
    by (cases "createBaseConfigArray w slots s")
  with assms obtain base where res1: "res1 = Inr base"
    by (cases res1) (auto simp: clearCache_def)
  obtain res2 s2 where c: "createCLIConfigArray w slots (s1\<lparr>baseConfigArray := base\<rparr>) = (res2, s2)"
    by (cases "createCLIConfigArray w slots (s1\<lparr>baseConfigArray := base\<rparr>)")
  with assms b res1 obtain cli where res2: "res2 = Inr cli"
    by (cases res2) (auto simp: clearCache_def)
  from assms b c res1 res2
  have s': "s' = s2\<lparr>cliConfigArray := cli, configCache := Map.empty\<rparr>"
    by (simp add: clearCache_def)
  from createBase_result[OF b[unfolded res1]] createCLI_result[OF c[unfolded res2]]
  show ?thesis
    unfolding s' by (auto simp: onlyAllocates_def)
qed

lemma newFileEnumerator_valid:
  assumes "newFileEnumerator w slots = Inr s"
  shows "validRefs s \<and> configCache s = Map.empty \<and> finalizeCache s = Map.empty"
proof -
  obtain res1 s1 where b: "createBaseConfigArray w slots emptyState = (res1, s1)"
    by (cases "createBaseConfigArray w slots (emptyState :: 'a State)")
  with assms obtain base where res1: "res1 = Inr base"
    by (cases res1) (auto simp: newFileEnumerator_def)
  obtain res2 s2 where c: "createCLIConfigArray w slots s1 = (res2, s2)"
    by (cases "createCLIConfigArray w slots s1")
  with assms b res1 obtain cli where res2: "res2 = Inr cli"
    by (cases res2) (auto simp: newFileEnumerator_def)
  from assms b c res1 res2
  have s: "s = s2\<lparr>baseConfigArray := base, cliConfigArray := cli\<rparr>"
    by (simp add: newFileEnumerator_def)
  from createBase_result[OF b[unfolded res1]] createCLI_result[OF c[unfolded res2]]
  show ?thesis
    unfolding s by (auto simp: onlyAllocates_def validRefs_def emptyState_def)
qed

lemma clearCache_valid:
  assumes "clearCache w slots s = (None, s')" and "validRefs s"
  shows "validRefs s'"
proof -
  from clearCache_result[OF assms(1)]
  have b: "baseConfigArray s' = nextRef s" and c: "cliConfigArray s' = Suc (nextRef s)"
    and n: "Suc (Suc (nextRef s)) \<le> nextRef s'" and cc: "configCache s' = Map.empty"
    and fc: "finalizeCache s' = finalizeCache s" by auto
  have "k < nextRef s' \<and> r < nextRef s'" if "finalizeCache s k = Some r" for k r
  proof -
    from assms(2) that have "k < nextRef s \<and> r < nextRef s" by (simp add: validRefs_def)
    with n show ?thesis by simp
  qed
  with b c n cc fc show ?thesis by (simp add: validRefs_def)
qed

section \<open>Arrays made after a point in time\<close>











section \<open>What the walk depends on\<close>

lemma walk_path_dependence:
  assumes "dirname w a1 = dirname w a2" and "(dirname w a1 = a1) = (dirname w a2 = a2)"
  shows "loadConfigInAncestorsRecursive w slots s a1 = loadConfigInAncestorsRecursive w slots s a2"
proof -
  have cr: "consideredRoot w slots (dirname w a2) a1 = consideredRoot w slots (dirname w a2) a2"
    using assms by (auto simp: consideredRoot_def Let_def)
  show ?thesis
  proof (cases "useEslintrc slots")
    case False
    then show ?thesis
      by (subst (1 2) loadConfigInAncestorsRecursive.simps) simp
  next
    case use: True
    show ?thesis
    proof (cases "configCache s (dirname w a2)")
      case (Some r)
      with use show ?thesis
        by (subst (1 2) loadConfigInAncestorsRecursive.simps) (simp add: assms(1))
    next
      case None
      with use show ?thesis
        by (subst (1 2) loadConfigInAncestorsRecursive.simps) (simp add: assms(1) cr Let_def)
    qed
  qed
qed

lemma load_world:
  assumes "directoryData w' = directoryData w"
  shows "loadOnDirectory w' = loadOnDirectory w"
  by (intro ext) (simp add: loadOnDirectory_def assms)

lemma ancestorsWalk_world:
  assumes "ancestorsWalk w slots s p y"
    and "dirname w' = dirname w" and "homedir w' = homedir w"
    and "directoryData w' = directoryData w" and "arrayRoot w' = arrayRoot w"
  shows "ancestorsWalk w' slots s p y"
proof -
  have cr: "consideredRoot w' slots = consideredRoot w slots"
    by (intro ext) (simp add: consideredRoot_def assms)
  note ld = load_world[OF assms(4)]
  from assms(1) show ?thesis
  proof (induction rule: ancestorsWalk.induct)
    case (disabled s p)
    then show ?case by (rule ancestorsWalk.disabled)
  next
    case (cacheHit s p r)
    then show ?case using ancestorsWalk.cacheHit[of slots s w' p r] by (simp add: assms)
  next
    case (stopped s p)
    then show ?case using ancestorsWalk.stopped[of slots s w' p] by (simp add: assms cr)
  next
    case (accessDenied s p s1)
    then show ?case using ancestorsWalk.accessDenied[of slots s w' p s1] by (simp add: assms cr ld)
  next
    case (loadFailed s p e s1)
    then show ?case using ancestorsWalk.loadFailed[of slots s w' p e s1] by (simp add: assms cr ld)
  next
    case (rootTrue s p c s1)
    then show ?case using ancestorsWalk.rootTrue[of slots s w' p c s1] by (simp add: assms cr ld)
  next
    case (ascendFailed s p c s1 e s2)
    then show ?case using ancestorsWalk.ascendFailed[of slots s w' p c s1 e s2] by (simp add: assms cr ld)
  next
    case (ascendMerged s p c s1 a s2)
    then show ?case using ancestorsWalk.ascendMerged[of slots s w' p c s1 a s2] by (simp add: assms cr ld)
  next
    case (ascendInherited s p c s1 a s2)
    then show ?case using ancestorsWalk.ascendInherited[of slots s w' p c s1 a s2] by (simp add: assms cr ld)
  qed
qed

lemma walk_world:
  assumes "dirname w' = dirname w" and "homedir w' = homedir w"
    and "directoryData w' = directoryData w" and "arrayRoot w' = arrayRoot w"
  shows "loadConfigInAncestorsRecursive w' slots s p = loadConfigInAncestorsRecursive w slots s p"
proof (cases "loadConfigInAncestorsRecursive w slots s p")
  case None
  show ?thesis
  proof (cases "loadConfigInAncestorsRecursive w' slots s p")
    case (Some y)
    from ancestorsWalk_world[OF walk_sound[OF Some], of w] assms
    have "loadConfigInAncestorsRecursive w slots s p = Some y" by (simp add: walk_complete)
    with None show ?thesis by simp
  qed (simp add: None)
next
  case (Some y)
  from ancestorsWalk_world[OF walk_sound[OF Some], of w'] assms
  show ?thesis by (simp add: walk_complete Some)
qed

lemma finalize_world:
  assumes "homedir w' = homedir w" and "directoryData w' = directoryData w"
    and "validateConfigArray w' = validateConfigArray w"
  shows "finalizeConfigArray w' slots s raw dir = finalizeConfigArray w slots s raw dir"
proof -
  have pe: "loadPersonalConfig w' slots s raw = loadPersonalConfig w slots s raw"
    by (simp add: loadPersonalConfig_def load_world[OF assms(2)] assms(1))
  show ?thesis
    unfolding finalizeConfigArray_def pe assms(3) by (rule refl)
qed

lemma walk_step_exists:
  assumes "\<And>s1. \<exists>y. ancestorsWalk w slots s1 (dirname w a) y"
  shows "\<exists>y. ancestorsWalk w slots s a y"
proof (cases "useEslintrc slots")
  case False
  then show ?thesis by (blast intro: ancestorsWalk.disabled)
next
  case use: True
  show ?thesis
  proof (cases "configCache s (dirname w a)")
    case (Some r)
    with use show ?thesis by (blast intro: ancestorsWalk.cacheHit)
  next
    case miss: None
    show ?thesis
    proof (cases "consideredRoot w slots (dirname w a) a")
      case True
      with use miss show ?thesis by (blast intro: ancestorsWalk.stopped)
    next
      case go: False
      obtain res s1 where ld: "loadOnDirectory w (dirname w a) None None s = (res, s1)"
        by (cases "loadOnDirectory w (dirname w a) None None s")
      show ?thesis
      proof (cases res)
        case (Inl e)
        show ?thesis
        proof (cases "e = External (Thrown (Some ''EACCES''))")
          case True
          with ancestorsWalk.accessDenied[OF use miss go, of s1] ld Inl show ?thesis by blast
        next
          case False
          with ancestorsWalk.loadFailed[OF use miss go, of e s1] ld Inl show ?thesis by blast
        qed
      next
        case (Inr c)
        with ld have ld': "loadOnDirectory w (dirname w a) None None s = (Inr c, s1)" by simp
        show ?thesis
        proof (cases "cells s1 c \<noteq> [] \<and> arrayRoot w (cells s1 c)")
          case True
          with ancestorsWalk.rootTrue[OF use miss go ld'] show ?thesis by blast
        next
          case notRoot: False
          from assms[of s1] obtain res2 s2 where
            rec: "ancestorsWalk w slots s1 (dirname w a) (res2, s2)" by (cases) auto
          show ?thesis
          proof (cases res2)
            case (Inl e)
            with ancestorsWalk.ascendFailed[OF use miss go ld' _ , of e s2] rec notRoot
            show ?thesis by blast
          next
            case inr2: (Inr anc)
            show ?thesis
            proof (cases "cells s1 c = []")
              case True
              with ancestorsWalk.ascendInherited[OF use miss go ld' True, of anc s2] rec inr2
              show ?thesis by blast
            next
              case False
              with notRoot have "\<not> arrayRoot w (cells s1 c)" by simp
              with ancestorsWalk.ascendMerged[OF use miss go ld' False this, of anc s2] rec inr2
              show ?thesis by blast
            qed
          qed
        qed
      qed
    qed
  qed
qed

text \<open>
  The walk returns (with an array or an exception) from every path from which
  \<open>dirname\<close> reaches a fixed point, as \<open>path.dirname\<close> does from every path.
\<close>

lemma walk_returns:
  assumes "(dirname w ^^ Suc n) a = (dirname w ^^ n) a"
  shows "\<exists>y. loadConfigInAncestorsRecursive w slots s a = Some y"
proof -
  have "\<exists>y. ancestorsWalk w slots s a y"
    using assms
  proof (induction n arbitrary: a s)
    case 0
    then have cr: "consideredRoot w slots (dirname w a) a"
      by (simp add: consideredRoot_def Let_def)
    show ?case
    proof (cases "useEslintrc slots")
      case False
      then show ?thesis by (blast intro: ancestorsWalk.disabled)
    next
      case use: True
      show ?thesis
      proof (cases "configCache s (dirname w a)")
        case (Some r)
        with use show ?thesis by (blast intro: ancestorsWalk.cacheHit)
      next
        case None
        with use cr show ?thesis by (blast intro: ancestorsWalk.stopped)
      qed
    qed
  next
    case (Suc n)
    have "(dirname w ^^ Suc n) (dirname w a) = (dirname w ^^ n) (dirname w a)"
      using Suc.prems by (simp add: funpow_swap1)
    from Suc.IH[OF this] show ?case by (rule walk_step_exists)
  qed
  then show ?thesis by (blast intro: walk_complete)
qed


section \<open>Arrays that are not empty\<close>

lemma noEmptyRaw_cache_update:
  "noEmptyRaw s \<Longrightarrow> cells s r \<noteq> [] \<Longrightarrow>
   noEmptyRaw (s\<lparr>configCache := (configCache s)(d \<mapsto> r)\<rparr>)"
  by (simp add: noEmptyRaw_def)

lemma noEmptyRaw_extends:
  assumes "noEmptyRaw s" and "validRefs s" and "configCache s1 = configCache s"
    and "baseConfigArray s1 = baseConfigArray s" and "\<forall>r < nextRef s. cells s1 r = cells s r"
  shows "noEmptyRaw s1"
  using assms by (auto simp: noEmptyRaw_def validRefs_def)

lemma noEmptyFinal_extends:
  assumes "noEmptyFinal s" and "validRefs s" and "finalizeCache s1 = finalizeCache s"
    and "\<forall>r < nextRef s. cells s1 r = cells s r"
  shows "noEmptyFinal s1"
  unfolding noEmptyFinal_def
proof (intro allI impI)
  fix k r assume "finalizeCache s1 k = Some r"
  with assms(3) have f: "finalizeCache s k = Some r" by simp
  with assms(2) have "r < nextRef s" by (simp add: validRefs_def)
  with assms(4) f assms(1) show "cells s1 r \<noteq> []" by (simp add: noEmptyFinal_def)
qed

lemma load_none_nonempty:
  assumes "loadOnDirectory w d nm None s = (res, s1)" and "validRefs s" and "noEmptyRaw s"
  shows "noEmptyRaw s1"
proof -
  from load_none_invariants[OF assms(1,2)]
  have "extends s s1" "configCache s1 = configCache s" by auto
  then show ?thesis using noEmptyRaw_extends[OF assms(3,2)] by (simp add: extends_def)
qed

lemma walk_nonempty:
  assumes "ancestorsWalk w slots s p y" and "validRefs s" and "noEmptyRaw s"
  shows "noEmptyRaw (snd y) \<and> (\<forall>r. fst y = Inr r \<longrightarrow> cells (snd y) r \<noteq> [])"
  using assms
proof (induction rule: ancestorsWalk.induct)
  case (disabled s p)
  then show ?case by (simp add: noEmptyRaw_def)
next
  case (cacheHit s p r)
  then show ?case by (simp add: noEmptyRaw_def)
next
  case (stopped s p)
  then show ?case by (simp add: noEmptyRaw_def)
next
  case (accessDenied s p s1)
  from load_none_nonempty[OF accessDenied(4,5,6)] show ?case by (simp add: noEmptyRaw_def)
next
  case (loadFailed s p e s1)
  from load_none_nonempty[OF loadFailed(4,6,7)] show ?case by simp
next
  case (rootTrue s p c s1)
  from load_none_nonempty[OF rootTrue(4,7,8)] rootTrue(5) show ?case
    by (simp add: noEmptyRaw_cache_update)
next
  case (ascendFailed s p c s1 e s2)
  from load_none_nonempty[OF ascendFailed(4,8,9)] load_none_invariants[OF ascendFailed(4,8)]
    ascendFailed.IH show ?case by simp
next
  case (ascendMerged s p c s1 a s2)
  from load_none_nonempty[OF ascendMerged(4,9,10)] load_none_invariants[OF ascendMerged(4,9)]
  have n1: "noEmptyRaw s1" and v1: "validRefs s1" by auto
  from ascendMerged.IH[OF v1 n1] have n2: "noEmptyRaw s2" and a: "cells s2 a \<noteq> []" by auto
  from walk_invariants[OF ascendMerged(7) v1] have v2: "validRefs s2" and e2: "extends s1 s2"
    by auto
  let ?s3 = "s2\<lparr>cells := (cells s2)(c := cells s2 a @ cells s2 c)\<rparr>"
  have "noEmptyRaw ?s3" using n2 a by (auto simp: noEmptyRaw_def)
  moreover have "cells ?s3 c \<noteq> []" using a by simp
  ultimately have "noEmptyRaw (?s3\<lparr>configCache := (configCache ?s3)(dirname w p \<mapsto> c)\<rparr>)"
    by (rule noEmptyRaw_cache_update)
  with a show ?case by simp
next
  case (ascendInherited s p c s1 a s2)
  from load_none_nonempty[OF ascendInherited(4,8,9)] load_none_invariants[OF ascendInherited(4,8)]
  have n1: "noEmptyRaw s1" and v1: "validRefs s1" by auto
  from ascendInherited.IH[OF v1 n1] have n2: "noEmptyRaw s2" and a: "cells s2 a \<noteq> []" by auto
  from noEmptyRaw_cache_update[OF n2 a, of "dirname w p"] a show ?case by simp
qed

text \<open>
  A finalization of an allocated raw array, in a state where no cached finalized array
  is empty, does not throw \<open>ConfigurationNotFoundError\<close> if the raw array or the CLI
  array has an element.
\<close>

lemma finalize_nonempty:
  assumes "finalizeConfigArray w slots s raw dir = (res, s')"
    and "validRefs s" and "raw < nextRef s" and "noEmptyFinal s"
    and "cells s raw \<noteq> [] \<or> cells s (cliConfigArray s) \<noteq> []"
  shows "(\<forall>d. res \<noteq> Inl (ConfigurationNotFoundError d)) \<and> noEmptyFinal s'"
proof (cases "finalizeCache s raw")
  case (Some fin)
  with assms(4) have "cells s fin \<noteq> []" by (simp add: noEmptyFinal_def)
  with Some assms(1,4) show ?thesis by (auto simp: finalize_hit)
next
  case None
  have ext: "\<And>t. External t \<noteq> ConfigurationNotFoundError dir" by simp
  from None show ?thesis
  proof (cases rule: finalize_miss_cases[where w = w and slots = slots and dir = dir])
    case (loadThrew e s1)
    from loadThrew(2) assms(1) have rs: "res = Inl e" "s' = s1" by simp_all
    from loadThrew(1) obtain t where e: "e = External t"
      by (auto simp: loadPersonalConfig_def dest: load_error_cases split: if_splits)
    from personal_invariants[OF loadThrew(1) assms(2,3)]
    have "extends s s1" "finalizeCache s1 = finalizeCache s" by auto
    with noEmptyFinal_extends[OF assms(4,2)] have "noEmptyFinal s1" by (simp add: extends_def)
    with rs e show ?thesis by simp
  next
    case (invalid loaded s1 fin s2 t)
    from invalid(4) assms(1) have rs: "res = Inl (External t)" "s' = s2" by simp_all
    from personal_invariants[OF invalid(1) assms(2,3)]
    have v1: "validRefs s1" and e1: "extends s s1" and f1: "finalizeCache s1 = finalizeCache s"
      and l1: "loaded < nextRef s1" by auto
    from cli_invariants[OF invalid(2) v1 l1]
    have e2: "extends s1 s2" and f2: "finalizeCache s2 = finalizeCache s1" by auto
    from extends_trans[OF e1 e2] f1 f2 noEmptyFinal_extends[OF assms(4,2)]
    have "noEmptyFinal s2" by (simp add: extends_def)
    with rs show ?thesis by simp
  next
    case (stored loaded s1 fin s2)
    from personal_invariants[OF stored(1) assms(2,3)]
    have v1: "validRefs s1" and e1: "extends s s1" and f1: "finalizeCache s1 = finalizeCache s"
      and l1: "loaded < nextRef s1" and ne1: "cells s raw \<noteq> [] \<longrightarrow> cells s1 loaded \<noteq> []"
      by auto
    from cli_invariants[OF stored(2) v1 l1]
    have e2: "extends s1 s2" and f2: "finalizeCache s2 = finalizeCache s1"
      and c2: "cells s2 fin = cells s1 loaded @ cells s1 (cliConfigArray s1)" by auto
    from e1 assms(2) have "cells s1 (cliConfigArray s1) = cells s (cliConfigArray s)"
      by (simp add: extends_def validRefs_def)
    with c2 ne1 assms(5) have fin: "cells s2 fin \<noteq> []" by auto
    from extends_trans[OF e1 e2] f1 f2 noEmptyFinal_extends[OF assms(4,2)]
    have n2: "noEmptyFinal s2" by (simp add: extends_def)
    from stored(4) assms(1) fin
    have rs: "res = Inr fin" "s' = s2\<lparr>finalizeCache := (finalizeCache s2)(raw \<mapsto> fin)\<rparr>"
      by (auto split: if_splits)
    from n2 fin show ?thesis unfolding rs by (simp add: noEmptyFinal_def)
  qed
qed

lemma get_cases [consumes 1, case_names walkThrew finalized]:
  assumes "getConfigArrayForFile w slots s f = Some (res, s')"
  obtains
    (walkThrew) e where
      "ancestorsWalk w slots s (resolve w (cwd slots) f) (Inl e, s')" "res = Inl e"
  | (finalized) raw s1 where
      "ancestorsWalk w slots s (resolve w (cwd slots) f) (Inr raw, s1)"
      "finalizeConfigArray w slots s1 raw (dirname w (resolve w (cwd slots) f)) = (res, s')"
  using assms
  by (auto simp: get_unfold walk_iff split: option.splits sum.splits prod.splits)

lemma walk_never_not_found:
  assumes "ancestorsWalk w slots s p (Inl e, s')"
  shows "e \<noteq> ConfigurationNotFoundError d"
  using walk_throws_loader_errors[OF assms] by auto

lemma get_not_found_escapes:
  assumes "getConfigArrayForFile w slots s f = Some (res, s')"
    and "validRefs s" and "noEmptyFinal s"
    and "noEmptyRaw s \<or> cells s (cliConfigArray s) \<noteq> []"
  shows "(\<forall>d. res \<noteq> Inl (ConfigurationNotFoundError d)) \<and>
         validRefs s' \<and> noEmptyFinal s' \<and> (noEmptyRaw s \<longrightarrow> noEmptyRaw s') \<and>
         cells s' (cliConfigArray s') = cells s (cliConfigArray s)"
proof -
  from get_invariants[OF assms(1,2)] have v': "validRefs s'" and e': "extends s s'" by auto
  from e' assms(2) have cli: "cells s' (cliConfigArray s') = cells s (cliConfigArray s)"
    by (simp add: extends_def validRefs_def)
  from assms(1) show ?thesis
  proof (cases rule: get_cases)
    case (walkThrew e)
    from walk_invariants[OF walkThrew(1) assms(2)] have e1: "extends s s'" by simp
    from walk_frame[OF walkThrew(1)] walk_keeps[OF walkThrew(1)]
    have nf: "noEmptyFinal s'"
      using noEmptyFinal_extends[OF assms(3,2), of s'] by simp
    have nr: "noEmptyRaw s \<longrightarrow> noEmptyRaw s'"
      using walk_nonempty[OF walkThrew(1) assms(2)] by simp
    from walk_never_not_found[OF walkThrew(1)] walkThrew(2) v' nf nr cli show ?thesis by simp
  next
    case (finalized raw s1)
    from walk_invariants[OF finalized(1) assms(2)]
    have v1: "validRefs s1" and e1: "extends s s1" and lt: "raw < nextRef s1" by auto
    from walk_frame[OF finalized(1)] walk_keeps[OF finalized(1)]
    have nf1: "noEmptyFinal s1"
      using noEmptyFinal_extends[OF assms(3,2), of s1] by simp
    from e1 assms(2) have cli1: "cells s1 (cliConfigArray s1) = cells s (cliConfigArray s)"
      by (simp add: extends_def validRefs_def)
    have nr1: "noEmptyRaw s \<longrightarrow> noEmptyRaw s1 \<and> cells s1 raw \<noteq> []"
      using walk_nonempty[OF finalized(1) assms(2)] by simp
    with assms(4) cli1 have "cells s1 raw \<noteq> [] \<or> cells s1 (cliConfigArray s1) \<noteq> []" by auto
    from finalize_nonempty[OF finalized(2) v1 lt nf1 this]
    have nocnf: "\<forall>d. res \<noteq> Inl (ConfigurationNotFoundError d)" and nf: "noEmptyFinal s'"
      by auto
    from finalize_invariants[OF finalized(2) v1 lt]
    have e2: "extends s1 s'" and c2: "configCache s' = configCache s1" by auto
    have "noEmptyRaw s \<longrightarrow> noEmptyRaw s'"
      using nr1 noEmptyRaw_extends[OF _ v1 c2, of] e2 by (auto simp: extends_def)
    with nocnf nf v' cli show ?thesis by simp
  qed
qed

lemma get_not_found_disabled:
  assumes "getConfigArrayForFile w slots s f = Some (res, s')" and "\<not> useEslintrc slots"
  shows "res \<noteq> Inl (ConfigurationNotFoundError d)"
  using assms(1)
proof (cases rule: get_cases)
  case (walkThrew e)
  from walk_never_not_found[OF walkThrew(1)] walkThrew(2) show ?thesis by simp
next
  case (finalized raw s1)
  from configuration_not_found_iff_finalize
         [of w slots s1 raw "dirname w (resolve w (cwd slots) f)" d]
    finalized(2) assms(2)
  show ?thesis by auto
qed


section \<open>Properties of \<open>iterateFiles\<close>\<close>

lemma finalize_error_kind:
  assumes "finalizeConfigArray w slots s raw dir = (Inl e, s')"
  shows "\<not> perPatternError e"
proof (cases "finalizeCache s raw")
  case (Some fin)
  with assms show ?thesis by (auto simp: finalize_hit split: if_splits)
next
  case None
  then show ?thesis
  proof (cases rule: finalize_miss_cases[where w = w and slots = slots and dir = dir])
    case (loadThrew e1 s1)
    from loadThrew(1) obtain t where "e1 = External t"
      by (auto simp: loadPersonalConfig_def dest: load_error_cases split: if_splits)
    moreover from loadThrew(2) assms have "e = e1" by simp
    ultimately show ?thesis by simp
  next
    case (invalid loaded s1 fin s2 t)
    from invalid(4) assms have "e = External t" by simp
    then show ?thesis by simp
  next
    case (stored loaded s1 fin s2)
    from stored(4) assms have "e = ConfigurationNotFoundError dir"
      by (auto split: if_splits)
    then show ?thesis by simp
  qed
qed

text \<open>
  The loop over the entries of a pattern: if every entry is silently ignored, nothing is
  finalized or yielded and only the first flag is set; otherwise both flags are set,
  unless \<open>_finalizeConfigArray\<close> throws, which ends the loop with its exception.
\<close>

lemma entries_all_ignored:
  assumes "list_all (\<lambda>e. entryFlag e = IGNORED_SILENTLY) entries"
  shows "iterateFilesEntries w slots entries foundRegardlessOfIgnored found seen s =
           ([], None, foundRegardlessOfIgnored \<or> entries \<noteq> [], found, seen, s)"
  using assms
  by (induction entries arbitrary: foundRegardlessOfIgnored) auto

lemma entries_some_found:
  assumes "iterateFilesEntries w slots entries foundRegardlessOfIgnored found seen s =
             (yielded, thrownError, foundRegardlessOfIgnored', found', seen', s')"
    and "found \<or> list_ex (\<lambda>e. entryFlag e \<noteq> IGNORED_SILENTLY) entries"
    and "foundRegardlessOfIgnored \<or> \<not> found"
  shows "foundRegardlessOfIgnored' \<and> found' \<and> (\<forall>e. thrownError = Some e \<longrightarrow> \<not> perPatternError e)"
  using assms
proof (induction entries arbitrary: foundRegardlessOfIgnored found seen s yielded thrownError
         foundRegardlessOfIgnored' found' seen' s')
  case Nil
  then show ?case by auto
next
  case (Cons entry entries)
  show ?case
  proof (cases "entryFlag entry = IGNORED_SILENTLY")
    case True
    with Cons.prems
    have "iterateFilesEntries w slots entries True found seen s =
             (yielded, thrownError, foundRegardlessOfIgnored', found', seen', s')"
      and "found \<or> list_ex (\<lambda>e. entryFlag e \<noteq> IGNORED_SILENTLY) entries"
      by auto
    from Cons.IH[OF this] show ?thesis by simp
  next
    case notSilent: False
    show ?thesis
    proof (cases "entryFilePath entry \<in> seen")
      case True
      with notSilent Cons.prems
      have "iterateFilesEntries w slots entries True True seen s =
             (yielded, thrownError, foundRegardlessOfIgnored', found', seen', s')"
        by simp
      from Cons.IH[OF this] show ?thesis by simp
    next
      case False
      obtain res s1 where fin:
        "finalizeConfigArray w slots s (entryConfig entry) (dirname w (entryFilePath entry)) = (res, s1)"
        by (cases "finalizeConfigArray w slots s (entryConfig entry) (dirname w (entryFilePath entry))")
      show ?thesis
      proof (cases res)
        case (Inl e)
        with fin notSilent False Cons.prems(1) finalize_error_kind[OF fin[unfolded Inl]]
        show ?thesis by auto
      next
        case (Inr cfg)
        obtain y t a b c d where rest:
          "iterateFilesEntries w slots entries True True (insert (entryFilePath entry) seen) s1 =
             (y, t, a, b, c, d)"
          by (cases "iterateFilesEntries w slots entries True True (insert (entryFilePath entry) seen) s1") auto
        from Cons.IH[OF rest] have "a \<and> b \<and> (\<forall>e. t = Some e \<longrightarrow> \<not> perPatternError e)" by simp
        with fin Inr notSilent False Cons.prems(1) rest show ?thesis by auto
      qed
    qed
  qed
qed


section \<open>The example enumerator at work\<close>

lemmas example_eval =
  exampleWorld_def exampleSlots_def exampleState_def exampleElement_def
  example_dirnames posixResolve_def consideredRoot_def
  loadOnDirectory_def newConfigArray_def finalizeConfigArray_def
  loadPersonalConfig_def applyCLIOptions_def Let_def

lemma example_valid: "validRefs exampleState"
  by (simp add: validRefs_def exampleState_def)

lemma example_first:
  "getConfigArrayForFile exampleWorld exampleSlots exampleState ''lib/a.js'' =
     Some (Inr 2, exampleStateAfter)"
proof -
  have "\<exists>s1. getConfigArrayForFile exampleWorld exampleSlots exampleState ''lib/a.js'' =
          Some (Inr 2, s1)"
    by (simp add: get_unfold loadConfigInAncestorsRecursive.simps example_eval)
  then show ?thesis by (auto simp: exampleStateAfter_def)
qed

lemma example_after_valid: "validRefs exampleStateAfter"
  using get_invariants[OF example_first example_valid] by simp


lemma example_cleared:
  "clearCache exampleWorld exampleSlots exampleStateAfter = (None, exampleStateCleared)"
proof -
  have "fst (clearCache exampleWorld exampleSlots exampleStateAfter) = None"
    by (simp add: clearCache_def createBaseConfigArray_def createCLIConfigArray_def create_def
          newConfigArray_def exampleWorld_def exampleSlots_def Let_def)
  then show ?thesis
    by (simp add: exampleStateCleared_def prod_eq_iff)
qed


section \<open>One array for each directory\<close>

text \<open>
  C1. Two file paths with the same directory receive the very same config array,
  the same address in the store and not only equal elements. A first call for
  \<open>p1\<close> in a valid state returns the array \<open>r\<close> and leaves the state \<open>s1\<close>, which
  is valid again and extends the state before the call. The second call, for a
  path \<open>p2\<close> with the same resolved directory, starts in any state \<open>s2\<close> that
  extends \<open>s1\<close>: the base and CLI arrays are the same, no cache entry was removed
  and no array changed, as after any number of further lookups and with no
  \<open>clearCache\<close> in between. Then the second call returns \<open>r\<close> itself and changes
  nothing: the per-directory cache and the finalize cache both hit.
\<close>

theorem same_directory_same_array:
  assumes "validRefs s"
    and "getConfigArrayForFile w slots s p1 = Some (Inr r, s1)"
    and "extends s1 s2"
    and "dirname w (resolve w (cwd slots) p1) = dirname w (resolve w (cwd slots) p2)"
  shows "getConfigArrayForFile w slots s2 p2 = Some (Inr r, s2) \<and>
         validRefs s1 \<and> extends s s1"
proof -
  let ?d = "dirname w (resolve w (cwd slots) p1)"
  from assms(2) obtain raw sa where
    walk: "ancestorsWalk w slots s (resolve w (cwd slots) p1) (Inr raw, sa)" and
    fin: "finalizeConfigArray w slots sa raw ?d = (Inr r, s1)"
    by (rule get_returns_cases)
  from walk_invariants[OF walk assms(1)]
  have va: "validRefs sa" and rawlt: "raw < nextRef sa" by auto
  from finalize_invariants[OF fin va rawlt]
  have cc: "configCache s1 = configCache sa" and rlt: "r < nextRef s1"
    and fc: "finalizeCache s1 raw = Some r"
    and ne: "useEslintrc slots \<longrightarrow> cells s1 r \<noteq> []"
    and ea: "extends sa s1" by auto
  from assms(3) fc have fc2: "finalizeCache s2 raw = Some r"
    by (auto simp: extends_def map_le_def dom_def)
  from assms(3) rlt have cells2: "cells s2 r = cells s1 r"
    by (simp add: extends_def)
  have walk2: "loadConfigInAncestorsRecursive w slots s2 (resolve w (cwd slots) p2) = Some (Inr raw, s2)"
  proof (cases "useEslintrc slots")
    case True
    with walk_result_cached[OF walk] cc have "configCache s1 ?d = Some raw" by simp
    with assms(3) have "configCache s2 ?d = Some raw"
      by (auto simp: extends_def map_le_def dom_def)
    with True assms(4) show ?thesis
      by (subst loadConfigInAncestorsRecursive.simps) simp
  next
    case False
    with walk_result_cached[OF walk] have "raw = baseConfigArray sa" by simp
    with ea assms(3) have "raw = baseConfigArray s2" by (simp add: extends_def)
    with False show ?thesis
      by (subst loadConfigInAncestorsRecursive.simps) simp
  qed
  have "getConfigArrayForFile w slots s2 p2 = Some (Inr r, s2)"
    using walk2 fc2 cells2 ne assms(4)
    by (simp add: get_unfold finalize_hit)
  with get_invariants[OF assms(2,1)] show ?thesis by simp
qed


theorem same_directory_same_array_witness:
  "getConfigArrayForFile exampleWorld exampleSlots exampleState ''lib/a.js'' =
     Some (Inr 2, exampleStateAfter) \<and>
   getConfigArrayForFile exampleWorld exampleSlots exampleStateAfter ''lib/b.js'' =
     Some (Inr 2, exampleStateAfter)"
  using same_directory_same_array
          [OF example_valid example_first extends_refl, of "''lib/b.js''"] example_first
  by (simp add: exampleWorld_def exampleSlots_def posixResolve_def example_dirnames)


section \<open>The outcome of one pattern of \<open>iterateFiles\<close>\<close>

text \<open>
  C2. \<open>iterateFiles\<close> reaches a non-empty pattern whose enumeration returns the
  entries \<open>entries\<close> without throwing. With no entry at all it throws
  \<open>NoFilesFoundError\<close> for that pattern, with the flag true exactly when
  \<open>globInputPaths\<close> is false and the pattern is a glob. With at least one entry and
  all of them flagged \<open>IGNORED_SILENTLY\<close> it throws \<open>AllFilesIgnoredError\<close> for that
  pattern. With an entry that has another flag, both marks of the pattern are set
  and neither of these two errors is raised for it: the run goes on with the other
  patterns, or ends with an error that finalizing an entry has thrown.
\<close>

theorem pattern_outcome:
  assumes "pattern \<noteq> []"
    and "iterateFilesOfPattern fuel w slots pattern s = Some (entries, None, s1)"
  shows "(entries = [] \<longrightarrow>
            iterateFilesPatterns fuel w slots (pattern # patterns) seen s =
              Some ([], Some (NoFilesFoundError pattern
                                (\<not> globInputPaths slots \<and> isGlob w pattern)), s1)) \<and>
         (entries \<noteq> [] \<and> list_all (\<lambda>e. entryFlag e = IGNORED_SILENTLY) entries \<longrightarrow>
            iterateFilesPatterns fuel w slots (pattern # patterns) seen s =
              Some ([], Some (AllFilesIgnoredError pattern), s1)) \<and>
         (list_ex (\<lambda>e. entryFlag e \<noteq> IGNORED_SILENTLY) entries \<longrightarrow>
            (\<exists>yielded thrownError seen' s2.
               iterateFilesEntries w slots entries False False seen s1 =
                 (yielded, thrownError, True, True, seen', s2) \<and>
               (\<forall>e. thrownError = Some e \<longrightarrow> \<not> perPatternError e) \<and>
               iterateFilesPatterns fuel w slots (pattern # patterns) seen s =
                 (case thrownError of
                    Some e \<Rightarrow> Some (yielded, Some e, s2)
                  | None \<Rightarrow>
                      (case iterateFilesPatterns fuel w slots patterns seen' s2 of
                         None \<Rightarrow> None
                       | Some (yielded', thrownError', s3) \<Rightarrow>
                           Some (yielded @ yielded', thrownError', s3)))))"
proof (intro conjI impI)
  assume "entries = []"
  with assms show "iterateFilesPatterns fuel w slots (pattern # patterns) seen s =
              Some ([], Some (NoFilesFoundError pattern
                                (\<not> globInputPaths slots \<and> isGlob w pattern)), s1)"
    by simp
next
  assume h: "entries \<noteq> [] \<and> list_all (\<lambda>e. entryFlag e = IGNORED_SILENTLY) entries"
  then have "iterateFilesEntries w slots entries False False seen s1 =
           ([], None, True, False, seen, s1)"
    using entries_all_ignored[of entries w slots False False seen s1] by simp
  with assms show "iterateFilesPatterns fuel w slots (pattern # patterns) seen s =
              Some ([], Some (AllFilesIgnoredError pattern), s1)"
    by simp
next
  assume h: "list_ex (\<lambda>e. entryFlag e \<noteq> IGNORED_SILENTLY) entries"
  obtain yielded thrownError a b seen' s2 where it:
    "iterateFilesEntries w slots entries False False seen s1 =
       (yielded, thrownError, a, b, seen', s2)"
    by (cases "iterateFilesEntries w slots entries False False seen s1") auto
  from entries_some_found[OF it] h
  have ab: "a" "b" and k: "\<forall>e. thrownError = Some e \<longrightarrow> \<not> perPatternError e" by auto
  show "\<exists>yielded thrownError seen' s2.
               iterateFilesEntries w slots entries False False seen s1 =
                 (yielded, thrownError, True, True, seen', s2) \<and>
               (\<forall>e. thrownError = Some e \<longrightarrow> \<not> perPatternError e) \<and>
               iterateFilesPatterns fuel w slots (pattern # patterns) seen s =
                 (case thrownError of
                    Some e \<Rightarrow> Some (yielded, Some e, s2)
                  | None \<Rightarrow>
                      (case iterateFilesPatterns fuel w slots patterns seen' s2 of
                         None \<Rightarrow> None
                       | Some (yielded', thrownError', s3) \<Rightarrow>
                           Some (yielded @ yielded', thrownError', s3)))"
    apply (rule exI[of _ yielded], rule exI[of _ thrownError], rule exI[of _ seen'], rule exI[of _ s2])
    using it ab k assms
    apply (simp split: option.splits)
    done
qed

theorem pattern_outcome_witness:
  "iterateFilesOfPattern 3 exampleWorld exampleSlots ''nothing'' exampleState =
     Some ([], None, exampleState) \<and>
   iterateFilesPatterns 3 exampleWorld exampleSlots [''nothing'', ''lib''] {} exampleState =
     Some ([], Some (NoFilesFoundError ''nothing'' False), exampleState) \<and>
   map_option (\<lambda>(yielded, thrownError, s). (yielded, thrownError))
     (iterateFiles 3 exampleWorld exampleSlots (Inl ''out'') exampleState) =
     Some ([], Some (AllFilesIgnoredError ''out'')) \<and>
   map_option (\<lambda>(yielded, thrownError, s). (map fcFilePath yielded, thrownError))
     (iterateFiles 3 exampleWorld exampleSlots (Inl ''lib'') exampleState) =
     Some ([''/proj/lib/a.js'', ''/proj/lib/b.js''], None)"
proof -
  have A: "iterateFilesOfPattern 3 exampleWorld exampleSlots ''nothing'' exampleState =
     Some ([], None, exampleState)"
    by (simp add: iterateFilesOfPattern_def isGlobPattern_def statSafeSync_def
          exampleWorld_def exampleSlots_def posixResolve_def)
  from pattern_outcome[OF _ A, of "[''lib'']" "{}"]
  have B: "iterateFilesPatterns 3 exampleWorld exampleSlots [''nothing'', ''lib''] {} exampleState =
     Some ([], Some (NoFilesFoundError ''nothing'' False), exampleState)"
    by (simp add: exampleWorld_def exampleSlots_def)
  have C: "map_option (\<lambda>(yielded, thrownError, s). (yielded, thrownError))
     (iterateFiles 3 exampleWorld exampleSlots (Inl ''out'') exampleState) =
     Some ([], Some (AllFilesIgnoredError ''out''))"
    by code_simp
  have D: "map_option (\<lambda>(yielded, thrownError, s). (map fcFilePath yielded, thrownError))
     (iterateFiles 3 exampleWorld exampleSlots (Inl ''lib'') exampleState) =
     Some ([''/proj/lib/a.js'', ''/proj/lib/b.js''], None)"
    by code_simp
  from A B C D show ?thesis by simp
qed

section \<open>\<open>clearCache\<close>\<close>






section \<open>\<open>root: true\<close>\<close>




section \<open>Directories considered root\<close>





section \<open>The personal config\<close>

text \<open>
  C6. The calls that a finalization makes to the factory: exactly one, the load of
  the home directory under the name \<open>PersonalConfig\<close> on top of the raw array, when
  the raw array has not been finalized before, config files are in use and every
  element of the raw array and of the CLI array has an empty file path; none at
  all otherwise. So one element that comes from a file, in the project or given by
  \<open>--config\<close>, is enough for the home directory not to be consulted. A raw array
  found in the finalize cache is not finalized again and loads nothing.
\<close>

theorem personal_config_lookup:
  "factoryCalls (snd (finalizeConfigArray w slots s configArray dir)) =
     factoryCalls s @
       (if finalizeCache s configArray = None \<and> useEslintrc slots \<and>
           list_all (\<lambda>c. elemFilePath c = []) (cells s configArray) \<and>
           list_all (\<lambda>c. elemFilePath c = []) (cells s (cliConfigArray s))
        then [LoadOnDirectory (homedir w) (Some ''PersonalConfig'') (Some configArray)]
        else [])"
proof (cases "finalizeCache s configArray")
  case (Some fin)
  then show ?thesis by (simp add: finalize_hit)
next
  case None
  then show ?thesis
  proof (cases rule: finalize_miss_cases[where w = w and slots = slots and dir = dir])
    case (loadThrew e s1)
    with None show ?thesis using personal_calls[of w slots s configArray] by simp
  next
    case (invalid loaded s1 fin s2 t)
    with None show ?thesis
      using personal_calls[of w slots s configArray] cli_calls[of s1 loaded] by simp
  next
    case (stored loaded s1 fin s2)
    with None show ?thesis
      using personal_calls[of w slots s configArray] cli_calls[of s1 loaded] by simp
  qed
qed

lemma example_walked:
  "loadConfigInAncestorsRecursive exampleWorld exampleSlots exampleState ''/proj/lib/a.js'' =
     Some (Inr 2, exampleStateWalked)"
proof -
  have "\<exists>s1. loadConfigInAncestorsRecursive exampleWorld exampleSlots exampleState
               ''/proj/lib/a.js'' = Some (Inr 2, s1)"
    by (simp add: loadConfigInAncestorsRecursive.simps example_eval)
  then show ?thesis by (auto simp: exampleStateWalked_def)
qed

lemma example_walked_fields:
  "finalizeCache exampleStateWalked = Map.empty"
  "cells exampleStateWalked 2 =
     [exampleElement ''.eslintrc.json'' ''/proj/.eslintrc.json'' True,
      exampleElement ''.eslintrc.yml'' ''/proj/lib/.eslintrc.yml'' False]"
  "factoryCalls exampleStateWalked =
     [Create ''BaseConfig'', Create ''CLIOptions'',
      LoadOnDirectory ''/proj/lib'' None None, LoadOnDirectory ''/proj'' None None]"
  by (simp_all add: exampleStateWalked_def loadConfigInAncestorsRecursive.simps example_eval)

theorem personal_config_lookup_witness:
  "finalizeCache exampleState 0 = None \<and>
   list_all (\<lambda>c. elemFilePath c = []) (cells exampleState 0) \<and>
   factoryCalls (snd (finalizeConfigArray exampleWorld exampleSlots exampleState 0 ''/plain'')) =
     factoryCalls exampleState @ [LoadOnDirectory ''/home/u'' (Some ''PersonalConfig'') (Some 0)] \<and>
   finalizeCache exampleStateWalked 2 = None \<and>
   \<not> list_all (\<lambda>c. elemFilePath c = []) (cells exampleStateWalked 2) \<and>
   factoryCalls (snd (finalizeConfigArray exampleWorld exampleSlots exampleStateWalked 2
                        ''/proj/lib'')) =
     factoryCalls exampleStateWalked"
  using personal_config_lookup[of exampleWorld exampleSlots exampleState 0 "''/plain''"]
        personal_config_lookup[of exampleWorld exampleSlots exampleStateWalked 2 "''/proj/lib''"]
  by (simp add: example_walked_fields exampleState_def exampleWorld_def exampleSlots_def
        exampleElement_def)


section \<open>\<open>ConfigurationNotFoundError\<close>\<close>

text \<open>
  C7. A finalization throws \<open>ConfigurationNotFoundError\<close> for a directory exactly
  when that directory is the one it was given, config files are in use and the
  finalized array, which the finalize cache holds by then, on a hit as after a
  store, is empty. \<open>getConfigArrayForFile\<close> never throws it when config files are not
  in use; nor in a valid state in which no finalized array is empty and either the
  CLI array is not empty, or neither the base array nor a cached array is; and
  these conditions hold again after the call. A new enumerator is in such a state
  as soon as its base array or its CLI array is not empty.
\<close>

theorem configuration_not_found_iff:
  "(fst (finalizeConfigArray w slots s configArray dir) = Inl (ConfigurationNotFoundError d) \<longleftrightarrow>
      d = dir \<and> useEslintrc slots \<and>
      (\<exists>fin. finalizeCache (snd (finalizeConfigArray w slots s configArray dir)) configArray
                = Some fin \<and>
             cells (snd (finalizeConfigArray w slots s configArray dir)) fin = [])) \<and>
   (\<forall>f res s'. getConfigArrayForFile w slots s f = Some (res, s') \<longrightarrow>
      (\<not> useEslintrc slots \<longrightarrow> (\<forall>d'. res \<noteq> Inl (ConfigurationNotFoundError d'))) \<and>
      (validRefs s \<and> noEmptyFinal s \<and>
       (noEmptyRaw s \<or> cells s (cliConfigArray s) \<noteq> []) \<longrightarrow>
         (\<forall>d'. res \<noteq> Inl (ConfigurationNotFoundError d')) \<and>
         validRefs s' \<and> noEmptyFinal s' \<and> (noEmptyRaw s \<longrightarrow> noEmptyRaw s') \<and>
         cells s' (cliConfigArray s') = cells s (cliConfigArray s))) \<and>
   (\<forall>w0. newFileEnumerator w0 slots = Inr s \<longrightarrow>
      validRefs s \<and> noEmptyFinal s \<and>
      (noEmptyRaw s \<longleftrightarrow> cells s (baseConfigArray s) \<noteq> []))"
proof -
  have A: "fst (finalizeConfigArray w slots s configArray dir) = Inl (ConfigurationNotFoundError d) \<longleftrightarrow>
      d = dir \<and> useEslintrc slots \<and>
      (\<exists>fin. finalizeCache (snd (finalizeConfigArray w slots s configArray dir)) configArray
                = Some fin \<and>
             cells (snd (finalizeConfigArray w slots s configArray dir)) fin = [])"
    by (rule configuration_not_found_iff_finalize)
  have B: "\<forall>f res s'. getConfigArrayForFile w slots s f = Some (res, s') \<longrightarrow>
      (\<not> useEslintrc slots \<longrightarrow> (\<forall>d'. res \<noteq> Inl (ConfigurationNotFoundError d'))) \<and>
      (validRefs s \<and> noEmptyFinal s \<and>
       (noEmptyRaw s \<or> cells s (cliConfigArray s) \<noteq> []) \<longrightarrow>
         (\<forall>d'. res \<noteq> Inl (ConfigurationNotFoundError d')) \<and>
         validRefs s' \<and> noEmptyFinal s' \<and> (noEmptyRaw s \<longrightarrow> noEmptyRaw s') \<and>
         cells s' (cliConfigArray s') = cells s (cliConfigArray s))"
  proof (intro allI impI conjI)
    fix f res s' d'
    assume "getConfigArrayForFile w slots s f = Some (res, s')" "\<not> useEslintrc slots"
    then show "res \<noteq> Inl (ConfigurationNotFoundError d')" by (rule get_not_found_disabled)
  next
    fix f res s'
    assume g: "getConfigArrayForFile w slots s f = Some (res, s')"
      and h: "validRefs s \<and> noEmptyFinal s \<and> (noEmptyRaw s \<or> cells s (cliConfigArray s) \<noteq> [])"
    from h have h': "validRefs s" "noEmptyFinal s"
      "noEmptyRaw s \<or> cells s (cliConfigArray s) \<noteq> []"
      by simp_all
    note r = get_not_found_escapes[OF g h']
    from r show "validRefs s'" by simp
    from r show "noEmptyFinal s'" by simp
    from r show "cells s' (cliConfigArray s') = cells s (cliConfigArray s)" by simp
    { fix d' from r show "res \<noteq> Inl (ConfigurationNotFoundError d')" by simp }
    { assume "noEmptyRaw s" with r show "noEmptyRaw s'" by simp }
  qed
  have C: "\<forall>w0. newFileEnumerator w0 slots = Inr s \<longrightarrow>
      validRefs s \<and> noEmptyFinal s \<and>
      (noEmptyRaw s \<longleftrightarrow> cells s (baseConfigArray s) \<noteq> [])"
  proof (intro allI impI)
    fix w0
    assume "newFileEnumerator w0 slots = Inr s"
    from newFileEnumerator_valid[OF this]
    show "validRefs s \<and> noEmptyFinal s \<and> (noEmptyRaw s \<longleftrightarrow> cells s (baseConfigArray s) \<noteq> [])"
      by (simp add: noEmptyFinal_def noEmptyRaw_def)
  qed
  show ?thesis
    apply (rule conjI)
     apply (rule A)
    apply (rule conjI)
     apply (rule B)
    apply (rule C)
    done
qed

theorem configuration_not_found_iff_witness:
  "fst (finalizeConfigArray noHomeWorld exampleSlots exampleState 0 ''/plain'') =
     Inl (ConfigurationNotFoundError ''/plain'') \<and>
   finalizeCache (snd (finalizeConfigArray noHomeWorld exampleSlots exampleState 0 ''/plain'')) 0 =
     Some 0 \<and>
   fst (the (getConfigArrayForFile noHomeWorld exampleSlots exampleState ''/plain/a.js'')) =
     Inl (ConfigurationNotFoundError ''/plain'') \<and>
   fst (the (getConfigArrayForFile noHomeWorld (exampleSlots\<lparr>useEslintrc := False\<rparr>)
               exampleState ''/plain/a.js'')) = Inr 0 \<and>
   validRefs exampleStateCleared \<and> noEmptyFinal exampleStateAfter"
proof -
  have fin: "finalizeCache (snd (finalizeConfigArray noHomeWorld exampleSlots exampleState 0 ''/plain'')) 0 =
     Some 0"
    "cells (snd (finalizeConfigArray noHomeWorld exampleSlots exampleState 0 ''/plain'')) 0 = []"
    by (simp_all add: noHomeWorld_def example_eval)
  note T = configuration_not_found_iff
             [of noHomeWorld exampleSlots exampleState 0 "''/plain''" "''/plain''"]
  from T fin have A: "fst (finalizeConfigArray noHomeWorld exampleSlots exampleState 0 ''/plain'') =
     Inl (ConfigurationNotFoundError ''/plain'')"
    by (simp add: exampleSlots_def)
  have B: "fst (the (getConfigArrayForFile noHomeWorld exampleSlots exampleState ''/plain/a.js'')) =
     Inl (ConfigurationNotFoundError ''/plain'')"
    by (simp add: get_unfold loadConfigInAncestorsRecursive.simps noHomeWorld_def example_eval)
  have C: "fst (the (getConfigArrayForFile noHomeWorld (exampleSlots\<lparr>useEslintrc := False\<rparr>)
               exampleState ''/plain/a.js'')) = Inr 0"
    by (simp add: get_unfold loadConfigInAncestorsRecursive.simps noHomeWorld_def example_eval)
  have D: "validRefs exampleStateCleared"
    using clearCache_valid[OF example_cleared example_after_valid] .
  have E: "noEmptyFinal exampleStateAfter"
    by (simp add: noEmptyFinal_def exampleStateAfter_def get_unfold
          loadConfigInAncestorsRecursive.simps example_eval)
  from A fin(1) B C D E show ?thesis by simp
qed

section \<open>\<open>toCompatibleObjectAsConfigFileContent\<close>\<close>

lemma Object_keys_no_index:
  assumes "list_all (\<lambda>k. arrayIndex k = None) (map fst obj)"
  shows "Object_keys obj = map fst obj"
proof -
  from assms have "filter (\<lambda>k. arrayIndex k \<noteq> None) (map fst obj) = []"
    by (auto simp: list_all_iff filter_empty_conv)
  moreover from assms have "filter (\<lambda>k. arrayIndex k = None) (map fst obj) = map fst obj"
    by (auto simp: list_all_iff intro: filter_True)
  ultimately show ?thesis by (simp add: Object_keys_def)
qed

text \<open>
  C9. The object that \<open>toCompatibleObjectAsConfigFileContent\<close> returns has, as its
  parser, the file path of the parser when there is one and nothing otherwise; as
  its plugins, the reverse of the keys of the plugins as \<open>Object.keys\<close> lists them,
  which is the reverse of the order of insertion when no plugin id is an array
  index; it does not depend on the processor; and its other five fields are those
  of the config.
\<close>

theorem compatible_content:
  "contentParser (toCompatibleObjectAsConfigFileContent c) =
     (case parser c of None \<Rightarrow> None | Some dep \<Rightarrow> Some (depFilePath dep)) \<and>
   contentPlugins (toCompatibleObjectAsConfigFileContent c) = rev (Object_keys (plugins c)) \<and>
   (list_all (\<lambda>k. arrayIndex k = None) (map fst (plugins c)) \<longrightarrow>
      contentPlugins (toCompatibleObjectAsConfigFileContent c) = rev (map fst (plugins c))) \<and>
   toCompatibleObjectAsConfigFileContent (c\<lparr>processor := p\<rparr>) =
     toCompatibleObjectAsConfigFileContent c \<and>
   contentEnv (toCompatibleObjectAsConfigFileContent c) = env c \<and>
   contentGlobals (toCompatibleObjectAsConfigFileContent c) = globals c \<and>
   contentParserOptions (toCompatibleObjectAsConfigFileContent c) = parserOptions c \<and>
   contentRules (toCompatibleObjectAsConfigFileContent c) = rules c \<and>
   contentSettings (toCompatibleObjectAsConfigFileContent c) = settings c"
  by (simp add: toCompatibleObjectAsConfigFileContent_def Object_keys_no_index)

lemma example_indices:
  "arrayIndex ''react'' = None" "arrayIndex ''import'' = None"
  "arrayIndex ''1'' = Some 1" "arrayIndex ''2'' = Some 2"
  by (simp_all add: arrayIndex_def isDigit_def decimalValue_def)

theorem compatible_content_witness:
  "list_all (\<lambda>k. arrayIndex k = None) (map fst (plugins exampleExtracted)) \<and>
   toCompatibleObjectAsConfigFileContent exampleExtracted =
     \<lparr>contentEnv = [(''node'', True)], contentGlobals = [],
      contentParser = Some ''/proj/node_modules/espree/espree.js'',
      contentParserOptions = False,
      contentPlugins = [''import'', ''react''],
      contentRules = [(''semi'', [True])], contentSettings = False\<rparr>"
  using compatible_content[of exampleExtracted "Some ''markdown''"]
  by (simp add: exampleExtracted_def exampleDependency_def example_indices
        toCompatibleObjectAsConfigFileContent_def)

text \<open>
  Plugins with the ids \<open>2\<close> and \<open>1\<close>, inserted in this order, are listed as \<open>2\<close>, \<open>1\<close>:
  not reversed.
\<close>

theorem plugins_reverse_insertion_order_counterexample:
  "map fst (plugins numberedPlugins) = [''2'', ''1''] \<and>
   contentPlugins (toCompatibleObjectAsConfigFileContent numberedPlugins) = [''2'', ''1''] \<and>
   contentPlugins (toCompatibleObjectAsConfigFileContent numberedPlugins) \<noteq>
     rev (map fst (plugins numberedPlugins))"
  by (simp add: numberedPlugins_def toCompatibleObjectAsConfigFileContent_def Object_keys_def
        example_indices decimalValue_def)

section \<open>What \<open>getConfigArrayForFile\<close> reads\<close>

text \<open>
  C10. Two paths whose resolved paths have the same directory, and which are both
  equal to that directory or both different from it, give the same outcome of
  \<open>getConfigArrayForFile\<close> in the same state. The outcome does not change when
  \<open>statSync\<close> and \<open>readdirSync\<close> are replaced by any other functions: the file and
  the file system are not looked at, only the factory is. And the call returns, an
  array or an error of the factory or of the finalizer, whenever going up from the
  resolved path reaches a directory that is its own parent.
\<close>

theorem config_depends_on_directory_only:
  assumes "dirname w (resolve w (cwd slots) f1) = dirname w (resolve w (cwd slots) f2)"
    and "(dirname w (resolve w (cwd slots) f1) = resolve w (cwd slots) f1) =
         (dirname w (resolve w (cwd slots) f2) = resolve w (cwd slots) f2)"
  shows "getConfigArrayForFile w slots s f1 = getConfigArrayForFile w slots s f2 \<and>
         (\<forall>stat readdir.
            getConfigArrayForFile (w\<lparr>statSync := stat, readdirSync := readdir\<rparr>) slots s f1 =
            getConfigArrayForFile w slots s f1) \<and>
         ((\<exists>n. (dirname w ^^ Suc n) (resolve w (cwd slots) f1) =
               (dirname w ^^ n) (resolve w (cwd slots) f1)) \<longrightarrow>
          (\<exists>y. getConfigArrayForFile w slots s f1 = Some y))"
proof (intro conjI allI impI)
  show "getConfigArrayForFile w slots s f1 = getConfigArrayForFile w slots s f2"
    unfolding get_unfold walk_path_dependence[OF assms, of slots s] assms(1)
    by (rule refl)
next
  fix stat readdir
  let ?w' = "w\<lparr>statSync := stat, readdirSync := readdir\<rparr>"
  have r: "resolve ?w' = resolve w" and d: "dirname ?w' = dirname w" by simp_all
  have wk: "\<And>a. loadConfigInAncestorsRecursive ?w' slots s a =
        loadConfigInAncestorsRecursive w slots s a"
    by (rule walk_world) simp_all
  have fin: "\<And>s1 raw dir. finalizeConfigArray ?w' slots s1 raw dir =
        finalizeConfigArray w slots s1 raw dir"
    by (rule finalize_world) simp_all
  show "getConfigArrayForFile ?w' slots s f1 = getConfigArrayForFile w slots s f1"
    unfolding get_unfold r d wk fin by (rule refl)
next
  assume "\<exists>n. (dirname w ^^ Suc n) (resolve w (cwd slots) f1) =
               (dirname w ^^ n) (resolve w (cwd slots) f1)"
  then obtain n where "(dirname w ^^ Suc n) (resolve w (cwd slots) f1) =
               (dirname w ^^ n) (resolve w (cwd slots) f1)" ..
  from walk_returns[OF this, of slots s]
  show "\<exists>y. getConfigArrayForFile w slots s f1 = Some y"
    by (auto simp: get_unfold split: sum.splits)
qed


text \<open>
  The paths \<open>/\<close> and \<open>/a.js\<close> have the same directory \<open>/\<close>. The first is its own
  directory, so the walk stops at once and the personal config is what is
  returned; the second receives the config of the directory \<open>/\<close>.
\<close>

theorem root_path_differs_counterexample:
  "dirname rootConfigWorld (resolve rootConfigWorld (cwd exampleSlots) ''/'') =
   dirname rootConfigWorld (resolve rootConfigWorld (cwd exampleSlots) ''/a.js'') \<and>
   returnedElements (getConfigArrayForFile rootConfigWorld exampleSlots exampleState ''/'') =
     Some [exampleElement ''PersonalConfig'' ''/home/u/.eslintrc'' False] \<and>
   returnedElements (getConfigArrayForFile rootConfigWorld exampleSlots exampleState ''/a.js'') =
     Some [exampleElement ''.eslintrc.json'' ''/.eslintrc.json'' False] \<and>
   returnedElements (getConfigArrayForFile rootConfigWorld exampleSlots exampleState ''/'') \<noteq>
   returnedElements (getConfigArrayForFile rootConfigWorld exampleSlots exampleState ''/a.js'')"
  by (simp add: returnedElements_def get_unfold loadConfigInAncestorsRecursive.simps
        rootConfigWorld_def posixDirname_def example_eval)

theorem config_depends_on_directory_only_witness:
  "dirname exampleWorld (resolve exampleWorld (cwd exampleSlots) ''lib/a.js'') =
   dirname exampleWorld (resolve exampleWorld (cwd exampleSlots) ''lib/missing.js'') \<and>
   statSync exampleWorld ''/proj/lib/missing.js'' = Inl (Thrown (Some ''ENOENT'')) \<and>
   getConfigArrayForFile exampleWorld exampleSlots exampleState ''lib/missing.js'' =
     Some (Inr 2, exampleStateAfter)"
proof -
  have d: "posixDirname ''/proj/lib/missing.js'' = ''/proj/lib''"
    by (simp add: posixDirname_def)
  from config_depends_on_directory_only
         [of exampleWorld exampleSlots "''lib/a.js''" "''lib/missing.js''" exampleState]
  have "getConfigArrayForFile exampleWorld exampleSlots exampleState ''lib/a.js'' =
        getConfigArrayForFile exampleWorld exampleSlots exampleState ''lib/missing.js''"
    by (simp add: exampleWorld_def exampleSlots_def posixResolve_def example_dirnames d)
  with example_first show ?thesis
    by (simp add: exampleWorld_def exampleSlots_def posixResolve_def example_dirnames d)
qed

end
